theory Spec2Isabelle
  imports Main "HOL-Library.Word" "HOL-Library.Product_Lexorder"
begin

section \<open>The Ethereum transaction broadcaster\<close>

text \<open>
  A shallow embedding of \<^verbatim>\<open>core/chains/evm/bulletprooftxmanager/eth_broadcaster.go\<close>.
  The three tables the broadcaster works on are an explicit store that every
  operation takes and returns; a Go \<^verbatim>\<open>error\<close> is a value of the datatype
  \<open>error\<close>; a database transaction commits its writes only when its body returns no
  error, so on an error the store is the one from before the transaction.
\<close>

subsection \<open>Data model\<close>

type_synonym Address = "160 word"
type_synonym Hash = "256 word"
type_synonym UUID = "128 word"
type_synonym bytes = "8 word list"
type_synonym time = int

datatype EthTxState =
    EthTxUnstarted
  | EthTxInProgress
  | EthTxFatalError
  | EthTxUnconfirmed
  | EthTxConfirmed
  | EthTxConfirmedMissingReceipt

datatype EthTxAttemptState =
    EthTxAttemptInProgress
  | EthTxAttemptInsufficientEth
  | EthTxAttemptBroadcast

text \<open>
  A row of \<^verbatim>\<open>eth_txes\<close>. \<open>Nonce\<close> is Go's \<^verbatim>\<open>*int64\<close>, \<open>Error\<close> a
  \<^verbatim>\<open>null.String\<close>, \<open>BroadcastAt\<close> a \<^verbatim>\<open>*time.Time\<close>, \<open>Subject\<close> and
  \<open>PipelineTaskRunID\<close> are \<^verbatim>\<open>uuid.NullUUID\<close>: \<open>None\<close> is the nil pointer or
  the invalid (SQL NULL) value. \<open>Value\<close> and \<open>EVMChainID\<close> are big integers. The
  nonce is never added to in Go (the database does it), so it is an \<open>int\<close>.
\<close>

record EthTx =
  ID :: int
  Nonce :: "int option"
  FromAddress :: Address
  ToAddress :: Address
  EncodedPayload :: bytes
  Value :: int
  GasLimit :: "64 word"
  Error :: "string option"
  BroadcastAt :: "time option"
  CreatedAt :: time
  State :: EthTxState
  EVMChainID :: int
  Subject :: "UUID option"
  PipelineTaskRunID :: "UUID option"
  Simulate :: bool

text \<open>A row of \<^verbatim>\<open>eth_tx_attempts\<close>; the three fee fields are nullable big integers.\<close>

record EthTxAttempt =
  AttemptID :: int
  EthTxID :: int
  TxType :: int
  GasPrice :: "int option"
  GasTipCap :: "int option"
  GasFeeCap :: "int option"
  ChainSpecificGasLimit :: "64 word"
  SignedRawTx :: bytes
  Hash :: Hash
  AttemptState :: EthTxAttemptState

text \<open>
  The store. \<^verbatim>\<open>eth_txes\<close> and \<^verbatim>\<open>eth_tx_attempts\<close> are lists of rows;
  \<^verbatim>\<open>eth_key_states\<close> has the identity \<open>(address, evm_chain_id)\<close> and the one
  column of interest \<^verbatim>\<open>next_nonce\<close>, so it is a map from the identity to it.
\<close>

record store =
  eth_txes :: "EthTx list"
  eth_tx_attempts :: "EthTxAttempt list"
  eth_key_states :: "Address \<times> int \<rightharpoonup> int"

subsection \<open>Errors\<close>

text \<open>
  What \<^verbatim>\<open>Client.SendRawTransaction\<close> answered, as the broadcaster sees it: the
  message and the answer of each classifier method of \<^verbatim>\<open>evmclient.SendError\<close>.
  The classifier belongs to another package (\<^verbatim>\<open>evmclient\<close>), so its answers
  are taken as given, one flag per method; one raw error may raise several flags, and
  the broadcaster tests them in a fixed order.
\<close>

record SendError =
  message :: string
  tooExpensive :: bool
  fatal :: bool
  nonceTooLow :: bool
  replacementUnderpriced :: bool
  terminallyUnderpriced :: bool
  feeTooLow :: bool
  feeTooHigh :: bool
  temporarilyUnderpriced :: bool
  insufficientEth :: bool

text \<open>
  \<open>New m\<close> is \<^verbatim>\<open>errors.New\<close>/\<^verbatim>\<open>errors.Errorf\<close> with the format string \<open>m\<close>
  (the formatted arguments are not kept), \<open>Wrap e m\<close> is \<^verbatim>\<open>errors.Wrap(e, m)\<close>,
  \<open>ErrNoRows\<close> is \<^verbatim>\<open>sql.ErrNoRows\<close>, \<open>SendErr\<close> a send error returned as an
  error, and \<open>Panic\<close> a run-time panic (nil dereference, index out of range).
\<close>

datatype error =
    ErrNoRows
  | New string
  | Wrap error string
  | SendErr SendError
  | Panic string

text \<open>\<^verbatim>\<open>errors.Wrap\<close> at a call site: a panic is not a returned error and passes through.\<close>

fun wrap :: "error \<Rightarrow> string \<Rightarrow> error" where
  "wrap (Panic p) m = Panic p"
| "wrap e m = Wrap e m"

text \<open>\<^verbatim>\<open>errors.Is(err, sql.ErrNoRows)\<close>: looks through the wrappers.\<close>

fun is_ErrNoRows :: "error \<Rightarrow> bool" where
  "is_ErrNoRows ErrNoRows = True"
| "is_ErrNoRows (Wrap e m) = is_ErrNoRows e"
| "is_ErrNoRows e = False"

subsection \<open>The key state: next nonce\<close>

text \<open>
  \<^verbatim>\<open>GetNextNonce\<close>: \<^verbatim>\<open>SELECT next_nonce FROM eth_key_states WHERE address = $1 AND
  evm_chain_id = $2\<close> read with \<^verbatim>\<open>Get\<close>, which fails with \<^verbatim>\<open>sql.ErrNoRows\<close> when
  there is no such row.
\<close>

definition GetNextNonce :: "store \<Rightarrow> Address \<Rightarrow> int \<Rightarrow> error + int" where
  "GetNextNonce q address chainID =
     (case eth_key_states q (address, chainID) of
        None \<Rightarrow> Inl ErrNoRows
      | Some nonce \<Rightarrow> Inr nonce)"

text \<open>
  \<^verbatim>\<open>IncrementNextNonce\<close>: \<^verbatim>\<open>UPDATE eth_key_states SET next_nonce = next_nonce + 1
  WHERE address = $1 AND next_nonce = $2 AND evm_chain_id = $3\<close>; no row affected is
  an error. The addition is the database's, on a \<^verbatim>\<open>bigint\<close> column, which rejects
  an overflow instead of wrapping; nonces near \<open>2 ^ 63\<close> are beyond the model.
\<close>

definition IncrementNextNonce :: "store \<Rightarrow> Address \<Rightarrow> int \<Rightarrow> int \<Rightarrow> error + store" where
  "IncrementNextNonce q address chainID currentNonce =
     (let rowsAffected =
            (case eth_key_states q (address, chainID) of
               None \<Rightarrow> (0 :: nat)
             | Some next_nonce \<Rightarrow> if next_nonce = currentNonce then 1 else 0)
      in if rowsAffected = 0
         then Inl (New (''invariant violation: could not increment nonce because no rows matched query. '' @
                        ''Either the key is missing or the nonce has been modified by an external process. '' @
                        ''This is an unrecoverable error''))
         else Inr (q\<lparr>eth_key_states := (eth_key_states q)((address, chainID) \<mapsto> currentNonce + 1)\<rparr>))"

subsection \<open>Picking the next unstarted transaction\<close>

text \<open>
  \<^verbatim>\<open>findNextUnstartedTransactionFromAddress\<close>: \<^verbatim>\<open>SELECT * FROM eth_txes WHERE
  from_address = $1 AND state = 'unstarted' AND evm_chain_id = $2 ORDER BY value ASC,
  created_at ASC, id ASC\<close> read with \<^verbatim>\<open>Get\<close>, which takes the first row of the
  result and fails with \<^verbatim>\<open>sql.ErrNoRows\<close> when the result is empty. Triples are
  compared lexicographically.
\<close>

definition findNextUnstartedTransactionFromAddress :: "store \<Rightarrow> Address \<Rightarrow> int \<Rightarrow> error + EthTx" where
  "findNextUnstartedTransactionFromAddress db fromAddress chainID =
     (case sort_key (\<lambda>r. (Value r, CreatedAt r, ID r))
             (filter (\<lambda>r. FromAddress r = fromAddress \<and> State r = EthTxUnstarted \<and> EVMChainID r = chainID)
                (eth_txes db)) of
        [] \<Rightarrow> Inl (Wrap ErrNoRows ''failed to findNextUnstartedTransactionFromAddress'')
      | etx # _ \<Rightarrow> Inr etx)"

subsection \<open>The broadcaster and what it consumes\<close>

record Config =
  EvmMaxGasPriceWei :: int
  EvmEIP1559DynamicFees :: bool

text \<open>
  The estimator capability. \<open>GetLegacyGas payload gasLimit forceRefetch\<close> and
  \<open>BumpLegacyGas gasPrice gasLimit\<close> return a gas price and a gas limit, or an
  error; the price given to \<open>BumpLegacyGas\<close> is a \<^verbatim>\<open>*big.Int\<close> that may be nil.
\<close>

record Estimator =
  GetLegacyGas :: "bytes \<Rightarrow> 64 word \<Rightarrow> bool \<Rightarrow> error + (int \<times> 64 word)"
  BumpLegacyGas :: "int option \<Rightarrow> 64 word \<Rightarrow> error + (int \<times> 64 word)"

text \<open>
  What \<^verbatim>\<open>simulateTransaction\<close> followed by \<^verbatim>\<open>evmclient.ExtractRPCError\<close> gives:
  no error, an error that carries a JSON-RPC error (with its text), or any other error.
\<close>

datatype SimulationResult =
    SimulationSucceeded
  | SimulationRPCError string
  | SimulationFailed

text \<open>
  The fields of \<^verbatim>\<open>EthBroadcaster\<close> that the modelled functions read. The resume
  callback may be nil; it gets the task run id and the error and returns an error or
  nil. \<open>SignTx\<close> is the key store signing a legacy transaction for the given
  transaction, gas price and gas limit: the signed bytes and the hash, or an error.
  \<open>simulateTransaction\<close> is the outcome of the \<^verbatim>\<open>eth_call\<close> dry run.
\<close>

record EthBroadcaster =
  chainID :: int
  config :: Config
  estimator :: Estimator
  resumeCallback :: "(UUID \<Rightarrow> error \<Rightarrow> error option) option"
  SignTx :: "EthTx \<Rightarrow> int \<Rightarrow> 64 word \<Rightarrow> error + (bytes \<times> Hash)"
  simulateTransaction :: "EthTxAttempt \<Rightarrow> EthTx \<Rightarrow> SimulationResult"

text \<open>
  \<^verbatim>\<open>NewEthBroadcaster\<close>, with the arguments that fill the fields above: the chain id
  and the dry run of the client, the configuration, the signing of the key store, the
  estimator and the resume callback. The struct literal it returns has no entry for
  \<^verbatim>\<open>resumeCallback\<close>, so the field keeps its zero value nil whatever callback is
  handed over; no other function of the file assigns the field.
\<close>

definition NewEthBroadcaster ::
  "int \<Rightarrow> (EthTxAttempt \<Rightarrow> EthTx \<Rightarrow> SimulationResult) \<Rightarrow> Config
   \<Rightarrow> (EthTx \<Rightarrow> int \<Rightarrow> 64 word \<Rightarrow> error + (bytes \<times> Hash)) \<Rightarrow> Estimator
   \<Rightarrow> (UUID \<Rightarrow> error \<Rightarrow> error option) option \<Rightarrow> EthBroadcaster" where
  "NewEthBroadcaster clientChainID clientSimulate cfg keystoreSignTx est resume =
     \<lparr>chainID = clientChainID,
      config = cfg,
      estimator = est,
      resumeCallback = None,
      SignTx = keystoreSignTx,
      simulateTransaction = clientSimulate\<rparr>"

text \<open>
  \<^verbatim>\<open>nextUnstartedTransactionWithNonce\<close>: the next unstarted transaction with the
  next nonce of its address assigned (in memory); nil when the queue is empty.
\<close>

definition nextUnstartedTransactionWithNonce ::
  "EthBroadcaster \<Rightarrow> store \<Rightarrow> Address \<Rightarrow> error + EthTx option" where
  "nextUnstartedTransactionWithNonce eb q fromAddress =
     (case findNextUnstartedTransactionFromAddress q fromAddress (chainID eb) of
        Inl err \<Rightarrow>
          if is_ErrNoRows err then Inr None
          else Inl (Wrap err ''findNextUnstartedTransactionFromAddress failed'')
      | Inr etx \<Rightarrow>
          (case GetNextNonce q (FromAddress etx) (chainID eb) of
             Inl err \<Rightarrow> Inl err
           | Inr nonce \<Rightarrow> Inr (Some (etx\<lparr>Nonce := Some nonce\<rparr>))))"

subsection \<open>Saving the outcome of a broadcast\<close>

text \<open>
  \<^verbatim>\<open>UPDATE eth_txes SET ... WHERE id = $n RETURNING *\<close> read with \<^verbatim>\<open>Get\<close>: every
  row with that id is updated, the first updated row is scanned into the caller's
  struct, and no such row is \<^verbatim>\<open>sql.ErrNoRows\<close>. Likewise for \<^verbatim>\<open>eth_tx_attempts\<close>.
\<close>

definition update_eth_txes_returning ::
  "int \<Rightarrow> (EthTx \<Rightarrow> EthTx) \<Rightarrow> store \<Rightarrow> error + (store \<times> EthTx)" where
  "update_eth_txes_returning i f q =
     (case find (\<lambda>r. ID r = i) (eth_txes q) of
        None \<Rightarrow> Inl ErrNoRows
      | Some r \<Rightarrow> Inr (q\<lparr>eth_txes := map (\<lambda>r. if ID r = i then f r else r) (eth_txes q)\<rparr>, f r))"

definition update_eth_tx_attempts_returning ::
  "int \<Rightarrow> (EthTxAttempt \<Rightarrow> EthTxAttempt) \<Rightarrow> store \<Rightarrow> error + (store \<times> EthTxAttempt)" where
  "update_eth_tx_attempts_returning i f q =
     (case find (\<lambda>a. AttemptID a = i) (eth_tx_attempts q) of
        None \<Rightarrow> Inl ErrNoRows
      | Some a \<Rightarrow>
          Inr (q\<lparr>eth_tx_attempts := map (\<lambda>a. if AttemptID a = i then f a else a) (eth_tx_attempts q)\<rparr>, f a))"

text \<open>A callback of \<^verbatim>\<open>saveAttempt\<close> works on the store inside the transaction.\<close>

type_synonym callback = "store \<Rightarrow> error + store"

text \<open>\<^verbatim>\<open>for _, f := range callbacks\<close>: in order, stopping at the first error.\<close>

fun run_callbacks :: "callback list \<Rightarrow> store \<Rightarrow> error + store" where
  "run_callbacks [] tx = Inr tx"
| "run_callbacks (f # fs) tx =
     (case f tx of
        Inl err \<Rightarrow> Inl (Wrap err ''saveUnconfirmed failed'')
      | Inr tx' \<Rightarrow> run_callbacks fs tx')"

text \<open>
  \<^verbatim>\<open>saveAttempt\<close>. The result is the returned error (\<open>None\<close> is nil), the store
  afterwards and the caller's \<^verbatim>\<open>etx\<close> struct afterwards (it is passed by pointer).
  The attempt is passed by value. When the transaction's body fails the store is the
  one before the call. \<^verbatim>\<open>*etx.Nonce\<close> panics on a nil nonce.
\<close>

definition saveAttempt ::
  "store \<Rightarrow> EthTx \<Rightarrow> EthTxAttempt \<Rightarrow> EthTxAttemptState \<Rightarrow> callback list \<Rightarrow> error option \<times> store \<times> EthTx" where
  "saveAttempt q etx attempt NewAttemptState callbacks =
     (if State etx \<noteq> EthTxInProgress then
        (Some (New ''can only transition to unconfirmed from in_progress, transaction is currently %s''), q, etx)
      else if AttemptState attempt \<noteq> EthTxAttemptInProgress then
        (Some (New ''attempt must be in in_progress state''), q, etx)
      else if \<not> (NewAttemptState = EthTxAttemptBroadcast) then
        (Some (New ''new attempt state must be broadcast, got: %s''), q, etx)
      else
        let etx1 = etx\<lparr>State := EthTxUnconfirmed\<rparr>;
            attempt1 = attempt\<lparr>AttemptState := NewAttemptState\<rparr>
        in case Nonce etx1 of
             None \<Rightarrow> (Some (Panic ''invalid memory address or nil pointer dereference''), q, etx1)
           | Some nonce \<Rightarrow>
              (case IncrementNextNonce q (FromAddress etx1) (EVMChainID etx1) nonce of
                 Inl err \<Rightarrow> (Some (Wrap err ''saveUnconfirmed failed''), q, etx1)
               | Inr tx1 \<Rightarrow>
                  (case update_eth_txes_returning (ID etx1)
                          (\<lambda>r. r\<lparr>State := State etx1, Error := Error etx1, BroadcastAt := BroadcastAt etx1\<rparr>) tx1 of
                     Inl err \<Rightarrow> (Some (Wrap err ''saveUnconfirmed failed to save eth_tx''), q, etx1)
                   | Inr (tx2, etx2) \<Rightarrow>
                      (case update_eth_tx_attempts_returning (AttemptID attempt1)
                              (\<lambda>a. a\<lparr>AttemptState := AttemptState attempt1\<rparr>) tx2 of
                         Inl err \<Rightarrow> (Some (Wrap err ''saveUnconfirmed failed to save eth_tx_attempt''), q, etx2)
                       | Inr (tx3, attempt3) \<Rightarrow>
                          (case run_callbacks callbacks tx3 of
                             Inl err \<Rightarrow> (Some err, q, etx2)
                           | Inr tx4 \<Rightarrow> (None, tx4, etx2))))))"

text \<open>
  The first step of \<^verbatim>\<open>saveFatallyErroredTransaction\<close>: when the transaction has
  a pipeline task run and the broadcaster a resume callback, the pipeline is resumed
  with the error, outside the transaction. \<^verbatim>\<open>sql.ErrNoRows\<close> from the callback is
  only logged; any other error ends the function. What the callback does to the
  pipeline is not part of the store.
\<close>

definition resumePipeline :: "EthBroadcaster \<Rightarrow> EthTx \<Rightarrow> string \<Rightarrow> error option" where
  "resumePipeline eb etx errorString =
     (case (PipelineTaskRunID etx, resumeCallback eb) of
        (Some taskRunID, Some resume) \<Rightarrow>
          (case resume taskRunID (New (''fatal error while sending transaction: '' @ errorString)) of
             None \<Rightarrow> None
           | Some err \<Rightarrow> if is_ErrNoRows err then None else Some (wrap err ''failed to resume pipeline''))
      | _ \<Rightarrow> None)"

text \<open>\<^verbatim>\<open>saveFatallyErroredTransaction\<close>, with the same three results as \<open>saveAttempt\<close>.\<close>

definition saveFatallyErroredTransaction ::
  "EthBroadcaster \<Rightarrow> store \<Rightarrow> EthTx \<Rightarrow> error option \<times> store \<times> EthTx" where
  "saveFatallyErroredTransaction eb q etx =
     (if State etx \<noteq> EthTxInProgress then
        (Some (New ''can only transition to fatal_error from in_progress, transaction is currently %s''), q, etx)
      else case Error etx of
        None \<Rightarrow> (Some (New ''expected error field to be set''), q, etx)
      | Some errorString \<Rightarrow>
         (case resumePipeline eb etx errorString of
            Some err \<Rightarrow> (Some err, q, etx)
          | None \<Rightarrow>
             let etx1 = etx\<lparr>Nonce := None, State := EthTxFatalError\<rparr>;
                 tx1 = q\<lparr>eth_tx_attempts := filter (\<lambda>a. EthTxID a \<noteq> ID etx1) (eth_tx_attempts q)\<rparr>
             in case update_eth_txes_returning (ID etx1)
                       (\<lambda>r. r\<lparr>State := State etx1, Error := Error etx1, BroadcastAt := None, Nonce := None\<rparr>) tx1 of
                  Inl err \<Rightarrow> (Some (Wrap err ''saveFatallyErroredTransaction failed to save eth_tx''), q, etx1)
                | Inr (tx2, etx2) \<Rightarrow> (None, tx2, etx2)))"

text \<open>
  \<^verbatim>\<open>saveInProgressTransaction\<close>, with the returned error, the store afterwards and
  the caller's two structs afterwards. The insert statement is a constant of the
  package; it is taken to add the attempt as a row under a fresh id, and to violate
  the foreign key \<^verbatim>\<open>eth_tx_attempts_eth_tx_id_fkey\<close> when the transaction has no
  row any more, which the function reports as \<^verbatim>\<open>errEthTxRemoved\<close>.
\<close>

definition errEthTxRemoved :: error where
  "errEthTxRemoved = New ''eth_tx removed''"

definition saveInProgressTransaction ::
  "store \<Rightarrow> EthTx \<Rightarrow> EthTxAttempt \<Rightarrow> error option \<times> store \<times> EthTx \<times> EthTxAttempt" where
  "saveInProgressTransaction q etx attempt =
     (if State etx \<noteq> EthTxUnstarted then
        (Some (New ''can only transition to in_progress from unstarted, transaction is currently %s''),
         q, etx, attempt)
      else if AttemptState attempt \<noteq> EthTxAttemptInProgress then
        (Some (New ''attempt state must be in_progress''), q, etx, attempt)
      else
        let etx1 = etx\<lparr>State := EthTxInProgress\<rparr>
        in if \<not> (\<exists>r\<in>set (eth_txes q). ID r = EthTxID attempt) then
             (Some errEthTxRemoved, q, etx1, attempt)
           else
             let attempt1 = attempt\<lparr>AttemptID := foldr max (map AttemptID (eth_tx_attempts q)) 0 + 1\<rparr>;
                 tx1 = q\<lparr>eth_tx_attempts := eth_tx_attempts q @ [attempt1]\<rparr>
             in case update_eth_txes_returning (ID etx1)
                       (\<lambda>r. r\<lparr>Nonce := Nonce etx1, State := State etx1, BroadcastAt := BroadcastAt etx1\<rparr>)
                       tx1 of
                  Inl err \<Rightarrow>
                    (Some (Wrap err ''saveInProgressTransaction failed to save eth_tx''), q, etx1, attempt1)
                | Inr (tx2, etx2) \<Rightarrow> (None, tx2, etx2, attempt1))"

subsection \<open>Sending, and retrying with new gas\<close>

text \<open>
  The classifier methods of \<^verbatim>\<open>*evmclient.SendError\<close>; on the nil pointer (no
  error) every one of them answers false.
\<close>

fun IsTooExpensive :: "SendError option \<Rightarrow> bool" where
  "IsTooExpensive None = False"
| "IsTooExpensive (Some s) = tooExpensive s"

fun Fatal :: "SendError option \<Rightarrow> bool" where
  "Fatal None = False"
| "Fatal (Some s) = fatal s"

fun IsNonceTooLowError :: "SendError option \<Rightarrow> bool" where
  "IsNonceTooLowError None = False"
| "IsNonceTooLowError (Some s) = nonceTooLow s"

fun IsReplacementUnderpriced :: "SendError option \<Rightarrow> bool" where
  "IsReplacementUnderpriced None = False"
| "IsReplacementUnderpriced (Some s) = replacementUnderpriced s"

fun IsTerminallyUnderpriced :: "SendError option \<Rightarrow> bool" where
  "IsTerminallyUnderpriced None = False"
| "IsTerminallyUnderpriced (Some s) = terminallyUnderpriced s"

fun IsFeeTooLow :: "SendError option \<Rightarrow> bool" where
  "IsFeeTooLow None = False"
| "IsFeeTooLow (Some s) = feeTooLow s"

fun IsFeeTooHigh :: "SendError option \<Rightarrow> bool" where
  "IsFeeTooHigh None = False"
| "IsFeeTooHigh (Some s) = feeTooHigh s"

fun IsTemporarilyUnderpriced :: "SendError option \<Rightarrow> bool" where
  "IsTemporarilyUnderpriced None = False"
| "IsTemporarilyUnderpriced (Some s) = temporarilyUnderpriced s"

fun IsInsufficientEth :: "SendError option \<Rightarrow> bool" where
  "IsInsufficientEth None = False"
| "IsInsufficientEth (Some s) = insufficientEth s"

text \<open>\<^verbatim>\<open>sendError.Error()\<close>; it is only called where a classifier has answered true.\<close>

fun ErrorString :: "SendError option \<Rightarrow> string" where
  "ErrorString None = []"
| "ErrorString (Some s) = message s"

text \<open>
  Modelled from the spec: \<^verbatim>\<open>NewLegacyAttempt\<close> of the attempt builder, which is
  defined in another file of the package. Given a transaction and a fee choice it produces a
  signed attempt with state \<^verbatim>\<open>in_progress\<close>; the legacy variant has
  \<^verbatim>\<open>tx_type = 0x0\<close> and uses \<^verbatim>\<open>gas_price\<close>. The attempt has no id before it is
  inserted (Go's zero value).
\<close>

definition NewLegacyAttempt :: "EthBroadcaster \<Rightarrow> EthTx \<Rightarrow> int \<Rightarrow> 64 word \<Rightarrow> error + EthTxAttempt" where
  "NewLegacyAttempt eb etx gasPrice gasLimit =
     (case SignTx eb etx gasPrice gasLimit of
        Inl err \<Rightarrow> Inl err
      | Inr (signedRawTx, hash) \<Rightarrow>
          Inr \<lparr>AttemptID = 0, EthTxID = ID etx, TxType = 0, GasPrice = Some gasPrice,
               GasTipCap = None, GasFeeCap = None, ChainSpecificGasLimit = gasLimit,
               SignedRawTx = signedRawTx, Hash = hash, AttemptState = EthTxAttemptInProgress\<rparr>)"

text \<open>
  Modelled from the spec: \<^verbatim>\<open>saveReplacementInProgressAttempt\<close>, which is defined in
  another file of the package: "atomically replace the single in_progress attempt with a new
  signed attempt preserving EthTx state". The old attempt's row is deleted and the
  replacement inserted under a fresh id, which is also written to the caller's struct.
\<close>

definition saveReplacementInProgressAttempt ::
  "store \<Rightarrow> EthTxAttempt \<Rightarrow> EthTxAttempt \<Rightarrow> error + (store \<times> EthTxAttempt)" where
  "saveReplacementInProgressAttempt q oldAttempt replacementAttempt =
     (let inserted = replacementAttempt\<lparr>AttemptID := foldr max (map AttemptID (eth_tx_attempts q)) 0 + 1\<rparr>
      in Inr (q\<lparr>eth_tx_attempts :=
                  filter (\<lambda>a. AttemptID a \<noteq> AttemptID oldAttempt) (eth_tx_attempts q) @ [inserted]\<rparr>,
              inserted))"

text \<open>
  The result of handling an in-progress transaction: the returned error, the store
  afterwards, and the attempts handed to \<^verbatim>\<open>SendRawTransaction\<close>, in order.
\<close>

type_synonym outcome = "error option \<times> store \<times> EthTxAttempt list"

definition saved :: "error option \<times> store \<times> EthTx \<Rightarrow> EthTxAttempt list \<Rightarrow> outcome option" where
  "saved r log = (case r of (err, q, etx) \<Rightarrow> Some (err, q, log))"

definition sent :: "EthTxAttempt \<Rightarrow> outcome option \<Rightarrow> outcome option" where
  "sent attempt r = map_option (\<lambda>(err, q, log). (err, q, attempt # log)) r"

text \<open>
  \<^verbatim>\<open>handleInProgressEthTx\<close> and the three retry functions it is mutually recursive
  with. The node's answers to the successive \<^verbatim>\<open>sendTransaction\<close> calls are the list
  \<open>sendErrors\<close> (\<open>None\<close> is no error); each send takes the next answer, and the result
  is \<open>None\<close> when the function would send again after the last given answer. The
  transaction is passed by value, so the caller's struct is not changed.
\<close>

function handleInProgressEthTx ::
    "EthBroadcaster \<Rightarrow> SendError option list \<Rightarrow> store \<Rightarrow> EthTx \<Rightarrow> EthTxAttempt \<Rightarrow> time \<Rightarrow> outcome option"
  and tryAgainBumpingGas ::
    "EthBroadcaster \<Rightarrow> SendError option list \<Rightarrow> store \<Rightarrow> SendError option \<Rightarrow> EthTx \<Rightarrow> EthTxAttempt \<Rightarrow> time
      \<Rightarrow> outcome option"
  and tryAgainWithNewEstimation ::
    "EthBroadcaster \<Rightarrow> SendError option list \<Rightarrow> store \<Rightarrow> SendError option \<Rightarrow> EthTx \<Rightarrow> EthTxAttempt \<Rightarrow> time
      \<Rightarrow> outcome option"
  and tryAgainWithNewGas ::
    "EthBroadcaster \<Rightarrow> SendError option list \<Rightarrow> store \<Rightarrow> EthTx \<Rightarrow> EthTxAttempt \<Rightarrow> time \<Rightarrow> int \<Rightarrow> 64 word
      \<Rightarrow> outcome option"
where
  "handleInProgressEthTx eb sendErrors q etx attempt initialBroadcastAt =
     (if State etx \<noteq> EthTxInProgress then
        Some (Some (New ''invariant violation: expected transaction %v to be in_progress, it was %s''), q, [])
      else case (if Simulate etx then simulateTransaction eb attempt etx else SimulationSucceeded) of
        SimulationRPCError jErr \<Rightarrow>
          saved (saveFatallyErroredTransaction eb q
                   (etx\<lparr>Error := Some (''transaction reverted during simulation: '' @ jErr)\<rparr>)) []
      | _ \<Rightarrow>
         (case sendErrors of
            [] \<Rightarrow> None
          | sendError # sendErrors' \<Rightarrow>
             if IsTooExpensive sendError then
               saved (saveFatallyErroredTransaction eb q (etx\<lparr>Error := Some (ErrorString sendError)\<rparr>)) [attempt]
             else if Fatal sendError then
               saved (saveFatallyErroredTransaction eb q (etx\<lparr>Error := Some (ErrorString sendError)\<rparr>)) [attempt]
             else
               let etx1 = etx\<lparr>BroadcastAt := Some initialBroadcastAt\<rparr>;
                   sendError1 = (if IsNonceTooLowError sendError \<or> IsReplacementUnderpriced sendError
                                 then None else sendError)
               in if IsTerminallyUnderpriced sendError1 then
                    sent attempt (tryAgainBumpingGas eb sendErrors' q sendError1 etx1 attempt initialBroadcastAt)
                  else if IsFeeTooLow sendError1 \<or> IsFeeTooHigh sendError1 then
                    sent attempt (tryAgainWithNewEstimation eb sendErrors' q sendError1 etx1 attempt initialBroadcastAt)
                  else
                    let sendError2 = (if IsTemporarilyUnderpriced sendError1 then None else sendError1)
                    in if IsInsufficientEth sendError2 then
                         Some (map_option SendErr sendError2, q, [attempt])
                       else case sendError2 of
                         None \<Rightarrow> saved (saveAttempt q etx1 attempt EthTxAttemptBroadcast []) [attempt]
                       | Some s \<Rightarrow>
                           Some (Some (Wrap (SendErr s) ''error while sending transaction %v''), q, [attempt])))"
| "tryAgainBumpingGas eb sendErrors q sendError etx attempt initialBroadcastAt =
     (if TxType attempt = 2 then
        Some (Some (New ''bumping gas on initial send is not supported for EIP-1559 transactions''), q, [])
      else case BumpLegacyGas (estimator eb) (GasPrice attempt) (GasLimit etx) of
        Inl err \<Rightarrow> Some (Some (Wrap err ''tryAgainWithHigherGasPrice failed''), q, [])
      | Inr (bumpedGasPrice, bumpedGasLimit) \<Rightarrow>
         (case GasPrice attempt of
            None \<Rightarrow> Some (Some (Panic ''invalid memory address or nil pointer dereference''), q, [])
          | Some attemptGasPrice \<Rightarrow>
             if bumpedGasPrice = attemptGasPrice \<and> bumpedGasPrice = EvmMaxGasPriceWei (config eb) then
               Some (Some (New ''Hit gas price bump ceiling, will not bump further. This is a terminal error''), q, [])
             else tryAgainWithNewGas eb sendErrors q etx attempt initialBroadcastAt bumpedGasPrice bumpedGasLimit))"
| "tryAgainWithNewEstimation eb sendErrors q sendError etx attempt initialBroadcastAt =
     (case GetLegacyGas (estimator eb) (EncodedPayload etx) (GasLimit etx) True of
        Inl err \<Rightarrow> Some (Some (Wrap err ''tryAgainWithNewEstimation failed to estimate gas''), q, [])
      | Inr (gasPrice, gasLimit) \<Rightarrow>
          tryAgainWithNewGas eb sendErrors q etx attempt initialBroadcastAt gasPrice gasLimit)"
| "tryAgainWithNewGas eb sendErrors q etx attempt initialBroadcastAt newGasPrice newGasLimit =
     (case NewLegacyAttempt eb etx newGasPrice newGasLimit of
        Inl err \<Rightarrow> Some (Some (Wrap err ''tryAgainWithHigherGasPrice failed''), q, [])
      | Inr replacementAttempt \<Rightarrow>
         (case saveReplacementInProgressAttempt q attempt replacementAttempt of
            Inl err \<Rightarrow> Some (Some (Wrap err ''tryAgainWithHigherGasPrice failed''), q, [])
          | Inr (q1, replacementAttempt1) \<Rightarrow>
              handleInProgressEthTx eb sendErrors q1 etx replacementAttempt1 initialBroadcastAt))"

  by pat_completeness auto
termination
  by (relation "measure (\<lambda>x. case x of
        Inl (Inl (eb, sendErrors, r)) \<Rightarrow> 3 * length sendErrors
      | Inl (Inr (eb, sendErrors, r)) \<Rightarrow> 3 * length sendErrors + 2
      | Inr (Inl (eb, sendErrors, r)) \<Rightarrow> 3 * length sendErrors + 2
      | Inr (Inr (eb, sendErrors, r)) \<Rightarrow> 3 * length sendErrors + 1)") auto

declare handleInProgressEthTx.simps [simp del]
declare tryAgainBumpingGas.simps [simp del]
declare tryAgainWithNewEstimation.simps [simp del]
declare tryAgainWithNewGas.simps [simp del]

subsection \<open>Resuming after a crash\<close>

text \<open>
  Modelled from the spec: \<^verbatim>\<open>loadEthTxAttempts\<close>, which is defined in another file
  of the package: the attempts of a transaction are loaded "as a separate, owned collection on
  the parent", found by the foreign key \<^verbatim>\<open>eth_tx_id\<close>. The collection is the
  field \<^verbatim>\<open>EthTxAttempts\<close> of the Go struct; here it is returned beside the row.
\<close>

definition loadEthTxAttempts :: "store \<Rightarrow> EthTx \<Rightarrow> EthTxAttempt list" where
  "loadEthTxAttempts q etx = filter (\<lambda>a. EthTxID a = ID etx) (eth_tx_attempts q)"

text \<open>
  \<^verbatim>\<open>getInProgressEthTx\<close>: \<^verbatim>\<open>SELECT * FROM eth_txes WHERE from_address = $1 and
  state = 'in_progress'\<close> read with \<^verbatim>\<open>Get\<close>; the transaction must have exactly one
  attempt, and that attempt must be in progress.
\<close>

definition getInProgressEthTx :: "store \<Rightarrow> Address \<Rightarrow> error + (EthTx \<times> EthTxAttempt list) option" where
  "getInProgressEthTx q fromAddress =
     (case find (\<lambda>r. FromAddress r = fromAddress \<and> State r = EthTxInProgress) (eth_txes q) of
        None \<Rightarrow> Inr None
      | Some etx \<Rightarrow>
         (case loadEthTxAttempts q etx of
            [a] \<Rightarrow>
              if AttemptState a \<noteq> EthTxAttemptInProgress then
                Inl (New (''invariant violation: expected in_progress transaction %v to have exactly one unsent attempt. '' @
                          ''Your database is in an inconsistent state and this node will not function correctly until the problem is resolved''))
              else Inr (Some (etx, [a]))
          | _ \<Rightarrow>
              Inl (New (''invariant violation: expected in_progress transaction %v to have exactly one unsent attempt. '' @
                        ''Your database is in an inconsistent state and this node will not function correctly until the problem is resolved''))))"

text \<open>
  \<^verbatim>\<open>handleAnyInProgressEthTx\<close>, for a context that is not cancelled: finishes the
  in-progress transaction of the address, if there is one.
\<close>

definition handleAnyInProgressEthTx ::
  "EthBroadcaster \<Rightarrow> SendError option list \<Rightarrow> store \<Rightarrow> Address \<Rightarrow> outcome option" where
  "handleAnyInProgressEthTx eb sendErrors q fromAddress =
     (case getInProgressEthTx q fromAddress of
        Inl err \<Rightarrow> Some (Some (wrap err ''handleAnyInProgressEthTx failed''), q, [])
      | Inr None \<Rightarrow> Some (None, q, [])
      | Inr (Some (etx, EthTxAttempts)) \<Rightarrow>
         (case EthTxAttempts of
            [] \<Rightarrow> Some (Some (Panic ''index out of range''), q, [])
          | attempt # _ \<Rightarrow>
             (case handleInProgressEthTx eb sendErrors q etx attempt (CreatedAt etx) of
                None \<Rightarrow> None
              | Some (Some err, q1, log) \<Rightarrow> Some (Some (wrap err ''handleAnyInProgressEthTx failed''), q1, log)
              | Some (None, q1, log) \<Rightarrow> Some (None, q1, log))))"

subsection \<open>The drop-oldest queueing strategy\<close>

record DropOldestStrategy =
  subject :: UUID
  queueSize :: nat
  simulate :: bool

definition NewDropOldestStrategy :: "UUID \<Rightarrow> nat \<Rightarrow> bool \<Rightarrow> DropOldestStrategy" where
  "NewDropOldestStrategy subj depth sim = \<lparr>subject = subj, queueSize = depth, simulate = sim\<rparr>"

text \<open>
  Modelled from the spec: \<^verbatim>\<open>DropOldestStrategy.PruneQueue\<close>, which is defined in
  another file of the package (\<^verbatim>\<open>strategies_test.go\<close> tests it). It "deletes all unstarted rows for that subject beyond the
  queueSize newest (ordered by id DESC). From-address is ignored; the queue is per
  subject, not per key. Returns the count deleted." Rows are deleted by their id.
\<close>

definition PruneQueue :: "DropOldestStrategy \<Rightarrow> store \<Rightarrow> int \<times> store" where
  "PruneQueue s q =
     (let queue = filter (\<lambda>r. State r = EthTxUnstarted \<and> Subject r = Some (subject s)) (eth_txes q);
          beyond = drop (queueSize s) (rev (sort_key ID queue));
          remaining = filter (\<lambda>r. ID r \<notin> set (map ID beyond)) (eth_txes q)
      in (int (length (eth_txes q)) - int (length remaining), q\<lparr>eth_txes := remaining\<rparr>))"

section \<open>Specification vocabulary and example data\<close>

text \<open>
  The queue order of the specification, "value ASC, created_at ASC, id ASC":
  \<open>queue_order a b\<close> when \<open>a\<close> comes no later than \<open>b\<close>.
\<close>

definition queue_order :: "EthTx \<Rightarrow> EthTx \<Rightarrow> bool" where
  "queue_order a b \<longleftrightarrow>
     Value a < Value b
     \<or> (Value a = Value b \<and> (CreatedAt a < CreatedAt b \<or> (CreatedAt a = CreatedAt b \<and> ID a \<le> ID b)))"

text \<open>
  A small store: address 5 on chain 1 has next nonce 7, one transaction in progress
  under nonce 7 with one unsent legacy attempt, and two unstarted transactions.
\<close>

definition etx1 :: EthTx where
  "etx1 = \<lparr>ID = 1, Nonce = Some 7, FromAddress = 5, ToAddress = 9, EncodedPayload = [], Value = 0,
           GasLimit = 21000, Error = None, BroadcastAt = None, CreatedAt = 10,
           State = EthTxInProgress, EVMChainID = 1, Subject = None, PipelineTaskRunID = None,
           Simulate = False\<rparr>"

definition etx2 :: EthTx where
  "etx2 = \<lparr>ID = 2, Nonce = None, FromAddress = 5, ToAddress = 9, EncodedPayload = [], Value = 3,
           GasLimit = 21000, Error = None, BroadcastAt = None, CreatedAt = 11,
           State = EthTxUnstarted, EVMChainID = 1, Subject = None, PipelineTaskRunID = None,
           Simulate = False\<rparr>"

definition etx3 :: EthTx where
  "etx3 = \<lparr>ID = 3, Nonce = None, FromAddress = 5, ToAddress = 9, EncodedPayload = [], Value = 0,
           GasLimit = 21000, Error = None, BroadcastAt = None, CreatedAt = 12,
           State = EthTxUnstarted, EVMChainID = 1, Subject = None, PipelineTaskRunID = None,
           Simulate = False\<rparr>"

definition attempt1 :: EthTxAttempt where
  "attempt1 = \<lparr>AttemptID = 1, EthTxID = 1, TxType = 0, GasPrice = Some 100, GasTipCap = None,
               GasFeeCap = None, ChainSpecificGasLimit = 21000, SignedRawTx = [], Hash = 77,
               AttemptState = EthTxAttemptInProgress\<rparr>"

definition q1 :: store where
  "q1 = \<lparr>eth_txes = [etx1, etx2, etx3], eth_tx_attempts = [attempt1], eth_key_states = [(5, 1) \<mapsto> 7]\<rparr>"

text \<open>
  A broadcaster for chain 1 with dynamic fees switched on, a ceiling of 500 wei, an
  estimator that bumps by 20 wei up to the ceiling, no resume callback, a key store
  that signs everything and a simulation that always succeeds.
\<close>

definition eb1 :: EthBroadcaster where
  "eb1 = \<lparr>chainID = 1,
          config = \<lparr>EvmMaxGasPriceWei = 500, EvmEIP1559DynamicFees = True\<rparr>,
          estimator = \<lparr>GetLegacyGas = (\<lambda>payload gasLimit force. Inr (150, gasLimit)),
                       BumpLegacyGas = (\<lambda>gasPrice gasLimit.
                          case gasPrice of None \<Rightarrow> Inl (New ''no gas price'')
                                         | Some p \<Rightarrow> Inr (min 500 (p + 20), gasLimit))\<rparr>,
          resumeCallback = None,
          SignTx = (\<lambda>etx gasPrice gasLimit. Inr ([], 78)),
          simulateTransaction = (\<lambda>attempt etx. SimulationSucceeded)\<rparr>"

text \<open>
  The transaction is handed to the node: it is in progress and, when it is to be
  simulated, the simulation has not reported a revert.
\<close>

fun is_RPCError :: "SimulationResult \<Rightarrow> bool" where
  "is_RPCError (SimulationRPCError jErr) = True"
| "is_RPCError r = False"

definition is_sent :: "EthBroadcaster \<Rightarrow> EthTx \<Rightarrow> EthTxAttempt \<Rightarrow> bool" where
  "is_sent eb etx attempt \<longleftrightarrow>
     State etx = EthTxInProgress \<and> \<not> (Simulate etx \<and> is_RPCError (simulateTransaction eb attempt etx))"


text \<open>
  The in-progress transaction with a send error recorded and a pipeline task run, and
  a broadcaster built from the parts of \<open>eb1\<close> and a resume callback that fails.
\<close>

definition etx1_fatal :: EthTx where
  "etx1_fatal = etx1\<lparr>Error := Some ''tx fee cap exceeded'', PipelineTaskRunID := Some 3\<rparr>"

definition eb2 :: EthBroadcaster where
  "eb2 = NewEthBroadcaster 1 (simulateTransaction eb1) (config eb1) (SignTx eb1) (estimator eb1)
           (Some (\<lambda>taskRunID err. Some (New ''could not resume the run'')))"

text \<open>Answers of the node: one error for each kind that the broadcaster tells apart.\<close>

definition no_flags :: SendError where
  "no_flags = \<lparr>message = [], tooExpensive = False, fatal = False, nonceTooLow = False,
               replacementUnderpriced = False, terminallyUnderpriced = False, feeTooLow = False,
               feeTooHigh = False, temporarilyUnderpriced = False, insufficientEth = False\<rparr>"

definition nonce_too_low :: SendError where
  "nonce_too_low = no_flags\<lparr>message := ''nonce too low'', nonceTooLow := True\<rparr>"

definition replacement_underpriced :: SendError where
  "replacement_underpriced =
     no_flags\<lparr>message := ''replacement transaction underpriced'', replacementUnderpriced := True\<rparr>"

definition terminally_underpriced :: SendError where
  "terminally_underpriced = no_flags\<lparr>message := ''transaction underpriced'', terminallyUnderpriced := True\<rparr>"

definition fee_too_low :: SendError where
  "fee_too_low = no_flags\<lparr>message := ''fee too low'', feeTooLow := True\<rparr>"

text \<open>A dynamic-fee attempt for the transaction in progress, and an attempt at the ceiling.\<close>

definition attempt1_dynamic :: EthTxAttempt where
  "attempt1_dynamic = attempt1\<lparr>TxType := 2, GasPrice := None, GasTipCap := Some 2, GasFeeCap := Some 100\<rparr>"

definition attempt1_ceiling :: EthTxAttempt where
  "attempt1_ceiling = attempt1\<lparr>GasPrice := Some 500\<rparr>"

text \<open>The replacement that the key store of \<open>eb1\<close> signs for transaction 1 at a gas price.\<close>

definition replacement1 :: "int \<Rightarrow> EthTxAttempt" where
  "replacement1 gasPrice =
     \<lparr>AttemptID = 2, EthTxID = 1, TxType = 0, GasPrice = Some gasPrice, GasTipCap = None,
      GasFeeCap = None, ChainSpecificGasLimit = 21000, SignedRawTx = [], Hash = 78,
      AttemptState = EthTxAttemptInProgress\<rparr>"

text \<open>
  The small store with \<^verbatim>\<open>broadcast_at\<close> of the transaction in progress already set,
  and the store after the worker has resumed it.
\<close>

definition q1_broadcast_before :: store where
  "q1_broadcast_before = q1\<lparr>eth_txes := [etx1\<lparr>BroadcastAt := Some 5\<rparr>, etx2, etx3]\<rparr>"

definition q1_resumed :: store where
  "q1_resumed =
     \<lparr>eth_txes = [etx1\<lparr>State := EthTxUnconfirmed, BroadcastAt := Some 10\<rparr>, etx2, etx3],
      eth_tx_attempts = [attempt1\<lparr>AttemptState := EthTxAttemptBroadcast\<rparr>],
      eth_key_states = [(5, 1) \<mapsto> 8]\<rparr>"

text \<open>
  A crash: a store with the two unstarted transactions only; the store after the worker
  has picked transaction 3, built an attempt at 150 wei and saved both as in progress,
  where it stops; and the store after the next cycle has resumed the transaction.
\<close>

definition q0 :: store where
  "q0 = \<lparr>eth_txes = [etx2, etx3], eth_tx_attempts = [], eth_key_states = [(5, 1) \<mapsto> 7]\<rparr>"

definition attempt3 :: EthTxAttempt where
  "attempt3 = \<lparr>AttemptID = 1, EthTxID = 3, TxType = 0, GasPrice = Some 150, GasTipCap = None,
               GasFeeCap = None, ChainSpecificGasLimit = 21000, SignedRawTx = [], Hash = 78,
               AttemptState = EthTxAttemptInProgress\<rparr>"

definition q0_crashed :: store where
  "q0_crashed =
     \<lparr>eth_txes = [etx2, etx3\<lparr>Nonce := Some 7, State := EthTxInProgress\<rparr>],
      eth_tx_attempts = [attempt3], eth_key_states = [(5, 1) \<mapsto> 7]\<rparr>"

definition q0_resumed :: store where
  "q0_resumed =
     \<lparr>eth_txes = [etx2, etx3\<lparr>Nonce := Some 7, State := EthTxUnconfirmed, BroadcastAt := Some 12\<rparr>],
      eth_tx_attempts = [attempt3\<lparr>AttemptState := EthTxAttemptBroadcast\<rparr>],
      eth_key_states = [(5, 1) \<mapsto> 8]\<rparr>"

text \<open>
  The table of \<^verbatim>\<open>Test_DropOldestStrategy_PruneQueue\<close>: one fatally errored, one
  in-progress, one confirmed and one unconfirmed transaction of address 5, then five
  unstarted transactions of addresses 5 and 6 with subjects 101 and 102.
\<close>

definition test_etx :: "int \<Rightarrow> Address \<Rightarrow> EthTxState \<Rightarrow> UUID option \<Rightarrow> EthTx" where
  "test_etx i fromAddress st subj =
     \<lparr>ID = i, Nonce = None, FromAddress = fromAddress, ToAddress = 9, EncodedPayload = [], Value = 0,
      GasLimit = 21000, Error = None, BroadcastAt = None, CreatedAt = 10, State = st,
      EVMChainID = 1, Subject = subj, PipelineTaskRunID = None, Simulate = False\<rparr>"

definition test_store :: store where
  "test_store =
     \<lparr>eth_txes =
        [test_etx 1 5 EthTxFatalError None, test_etx 2 5 EthTxInProgress None,
         test_etx 3 5 EthTxConfirmed None, test_etx 4 5 EthTxUnconfirmed None,
         test_etx 5 5 EthTxUnstarted (Some 101), test_etx 6 5 EthTxUnstarted (Some 102),
         test_etx 7 6 EthTxUnstarted (Some 101), test_etx 8 5 EthTxUnstarted (Some 101),
         test_etx 9 6 EthTxUnstarted (Some 101)],
      eth_tx_attempts = [], eth_key_states = Map.empty\<rparr>"

section \<open>Properties\<close>

subsection \<open>The conditional increment of the next nonce\<close>

text \<open>
  C2. \<open>IncrementNextNonce\<close> for an address, a chain id and an expected current nonce:
  it succeeds exactly when the stored \<open>next_nonce\<close> of that \<open>(address, evm_chain_id)\<close>
  equals the expected nonce, and then the stored value is the old one plus one and
  every other key state, and both other tables, are as before. When no row matches
  (the stored value differs, or there is no row for the key) it returns the
  unrecoverable invariant-violation error and there is no new store.
\<close>

theorem IncrementNextNonce_conditional:
  "(eth_key_states q (address, chain) = Some expected \<longrightarrow>
      (\<exists>q'. IncrementNextNonce q address chain expected = Inr q'
          \<and> eth_key_states q' (address, chain) = Some (expected + 1)
          \<and> (\<forall>k. k \<noteq> (address, chain) \<longrightarrow> eth_key_states q' k = eth_key_states q k)
          \<and> eth_txes q' = eth_txes q \<and> eth_tx_attempts q' = eth_tx_attempts q))
   \<and> (eth_key_states q (address, chain) \<noteq> Some expected \<longrightarrow>
      IncrementNextNonce q address chain expected =
        Inl (New (''invariant violation: could not increment nonce because no rows matched query. '' @
                  ''Either the key is missing or the nonce has been modified by an external process. '' @
                  ''This is an unrecoverable error'')))"
  by (auto simp: IncrementNextNonce_def Let_def split: option.splits)

theorem IncrementNextNonce_conditional_witness:
  "(\<exists>q'. IncrementNextNonce q1 5 1 7 = Inr q' \<and> eth_key_states q' (5, 1) = Some 8)
   \<and> IncrementNextNonce q1 5 1 6 =
        Inl (New (''invariant violation: could not increment nonce because no rows matched query. '' @
                  ''Either the key is missing or the nonce has been modified by an external process. '' @
                  ''This is an unrecoverable error''))"
  using IncrementNextNonce_conditional [of q1 5 1 7] IncrementNextNonce_conditional [of q1 5 1 6]
  by (auto simp: q1_def)

subsection \<open>Saving a broadcast attempt\<close>

lemma update_eth_txes_returning_Inr:
  "update_eth_txes_returning i f q = Inr (q', r) \<Longrightarrow>
     q' = q\<lparr>eth_txes := map (\<lambda>r. if ID r = i then f r else r) (eth_txes q)\<rparr>
     \<and> (\<exists>r0\<in>set (eth_txes q). ID r0 = i \<and> r = f r0)"
  by (auto simp: update_eth_txes_returning_def find_Some_iff split: option.splits)

lemma update_eth_txes_returning_Inl:
  "update_eth_txes_returning i f q = Inl e \<Longrightarrow> e = ErrNoRows \<and> (\<forall>r\<in>set (eth_txes q). ID r \<noteq> i)"
  by (auto simp: update_eth_txes_returning_def find_None_iff split: option.splits)

lemma update_eth_tx_attempts_returning_Inr:
  "update_eth_tx_attempts_returning i f q = Inr (q', a) \<Longrightarrow>
     q' = q\<lparr>eth_tx_attempts := map (\<lambda>a. if AttemptID a = i then f a else a) (eth_tx_attempts q)\<rparr>
     \<and> (\<exists>a0\<in>set (eth_tx_attempts q). AttemptID a0 = i \<and> a = f a0)"
  by (auto simp: update_eth_tx_attempts_returning_def find_Some_iff split: option.splits)

lemma IncrementNextNonce_Inr:
  "IncrementNextNonce q a c n = Inr q' \<Longrightarrow>
     eth_key_states q (a, c) = Some n \<and> q' = q\<lparr>eth_key_states := (eth_key_states q)((a, c) \<mapsto> n + 1)\<rparr>"
  by (auto simp: IncrementNextNonce_def Let_def split: option.splits if_splits)

lemma saveAttempt_success:
  assumes "saveAttempt q etx attempt newState callbacks = (None, q', etx')"
  shows "State etx = EthTxInProgress \<and> AttemptState attempt = EthTxAttemptInProgress
         \<and> newState = EthTxAttemptBroadcast
         \<and> (\<exists>nonce. Nonce etx = Some nonce
              \<and> eth_key_states q (FromAddress etx, EVMChainID etx) = Some nonce
              \<and> (\<exists>r\<in>set (eth_txes q). ID r = ID etx)
              \<and> (\<exists>a\<in>set (eth_tx_attempts q). AttemptID a = AttemptID attempt)
              \<and> run_callbacks callbacks
                   \<lparr>eth_txes = map (\<lambda>r. if ID r = ID etx
                                      then r\<lparr>State := EthTxUnconfirmed, Error := Error etx,
                                             BroadcastAt := BroadcastAt etx\<rparr>
                                      else r) (eth_txes q),
                    eth_tx_attempts = map (\<lambda>a. if AttemptID a = AttemptID attempt
                                      then a\<lparr>AttemptState := EthTxAttemptBroadcast\<rparr>
                                      else a) (eth_tx_attempts q),
                    eth_key_states = (eth_key_states q)((FromAddress etx, EVMChainID etx) \<mapsto> nonce + 1)\<rparr>
                  = Inr q')
         \<and> State etx' = EthTxUnconfirmed"
  using assms
  by (cases q)
     (auto simp: saveAttempt_def Let_def split: if_splits option.splits sum.splits prod.splits
           dest!: IncrementNextNonce_Inr update_eth_txes_returning_Inr update_eth_tx_attempts_returning_Inr)

lemma saveAttempt_failure:
  "saveAttempt q etx attempt newState callbacks = (Some e, q', etx') \<Longrightarrow> q' = q"
  by (auto simp: saveAttempt_def Let_def split: if_splits option.splits sum.splits prod.splits)




subsection \<open>The order in which unstarted transactions are picked\<close>

lemma sort_key_first_least:
  assumes "sort_key f xs = y # ys"
  shows "y \<in> set xs \<and> (\<forall>x\<in>set xs. f y \<le> f x)"
proof -
  have s: "set (y # ys) = set xs"
    using assms set_sort[of f xs] by simp
  have "sorted (map f (y # ys))"
    using assms sorted_sort_key[of f xs] by simp
  then have "\<forall>z\<in>set ys. f y \<le> f z"
    by simp
  then have "\<forall>x\<in>set (y # ys). f y \<le> f x"
    by simp
  with s show ?thesis
    by (metis list.set_intros(1))
qed

lemma sort_key_Nil_iff: "sort_key f xs = [] \<longleftrightarrow> xs = []"
  by (metis length_sort length_0_conv)

lemma triple_le_queue_order:
  "(Value a, CreatedAt a, ID a) \<le> (Value b, CreatedAt b, ID b) \<longleftrightarrow> queue_order a b"
  by (auto simp: queue_order_def less_eq_prod_def)

lemma findNextUnstartedTransactionFromAddress_cases:
  "findNextUnstartedTransactionFromAddress q fromAddress c =
     Inl (Wrap ErrNoRows ''failed to findNextUnstartedTransactionFromAddress'')
     \<and> {r \<in> set (eth_txes q). FromAddress r = fromAddress \<and> State r = EthTxUnstarted \<and> EVMChainID r = c} = {}
   \<or> (\<exists>etx. findNextUnstartedTransactionFromAddress q fromAddress c = Inr etx
         \<and> etx \<in> {r \<in> set (eth_txes q). FromAddress r = fromAddress \<and> State r = EthTxUnstarted \<and> EVMChainID r = c}
         \<and> (\<forall>r'\<in>{r \<in> set (eth_txes q). FromAddress r = fromAddress \<and> State r = EthTxUnstarted \<and> EVMChainID r = c}.
               queue_order etx r'))"
proof (cases "sort_key (\<lambda>r. (Value r, CreatedAt r, ID r))
             (filter (\<lambda>r. FromAddress r = fromAddress \<and> State r = EthTxUnstarted \<and> EVMChainID r = c)
                (eth_txes q))")
  case Nil
  then have "filter (\<lambda>r. FromAddress r = fromAddress \<and> State r = EthTxUnstarted \<and> EVMChainID r = c) (eth_txes q) = []"
    by (simp only: sort_key_Nil_iff)
  then have "{r \<in> set (eth_txes q). FromAddress r = fromAddress \<and> State r = EthTxUnstarted \<and> EVMChainID r = c} = {}"
    by (auto simp: filter_empty_conv)
  with Nil show ?thesis
    by (simp add: findNextUnstartedTransactionFromAddress_def)
next
  case (Cons y ys)
  have "y \<in> set (filter (\<lambda>r. FromAddress r = fromAddress \<and> State r = EthTxUnstarted \<and> EVMChainID r = c) (eth_txes q))
      \<and> (\<forall>x\<in>set (filter (\<lambda>r. FromAddress r = fromAddress \<and> State r = EthTxUnstarted \<and> EVMChainID r = c) (eth_txes q)).
            queue_order y x)"
    using sort_key_first_least[OF Cons] unfolding triple_le_queue_order by blast
  then have "y \<in> {r \<in> set (eth_txes q). FromAddress r = fromAddress \<and> State r = EthTxUnstarted \<and> EVMChainID r = c}"
    and "\<forall>r'\<in>{r \<in> set (eth_txes q). FromAddress r = fromAddress \<and> State r = EthTxUnstarted \<and> EVMChainID r = c}.
               queue_order y r'"
    by auto
  with Cons show ?thesis
    by (simp add: findNextUnstartedTransactionFromAddress_def)
qed

text \<open>
  C3. \<open>nextUnstartedTransactionWithNonce\<close> for a store and an address, with
  \<open>unstarted\<close> the unstarted rows of that address on the broadcaster's chain. It
  returns none exactly when there is no unstarted row. Every transaction it returns
  is an unstarted row that comes first in the order (value ASC, created_at ASC,
  id ASC) among all unstarted rows, with the stored next nonce of the address
  assigned to it. It does return a transaction whenever there is an unstarted row and
  the address has a key state to read the nonce from.
\<close>

theorem nextUnstartedTransactionWithNonce_order:
  "(let unstarted = {r \<in> set (eth_txes q).
                      FromAddress r = fromAddress \<and> State r = EthTxUnstarted \<and> EVMChainID r = chainID eb}
    in (nextUnstartedTransactionWithNonce eb q fromAddress = Inr None \<longleftrightarrow> unstarted = {})
     \<and> (\<forall>etx. nextUnstartedTransactionWithNonce eb q fromAddress = Inr (Some etx) \<longrightarrow>
          (\<exists>r\<in>unstarted. \<exists>nonce.
              eth_key_states q (fromAddress, chainID eb) = Some nonce
            \<and> etx = r\<lparr>Nonce := Some nonce\<rparr>
            \<and> (\<forall>r'\<in>unstarted. queue_order r r')))
     \<and> (unstarted \<noteq> {} \<and> eth_key_states q (fromAddress, chainID eb) \<noteq> None \<longrightarrow>
          (\<exists>etx. nextUnstartedTransactionWithNonce eb q fromAddress = Inr (Some etx))))"
  using findNextUnstartedTransactionFromAddress_cases[of q fromAddress "chainID eb"]
  by (auto simp: nextUnstartedTransactionWithNonce_def GetNextNonce_def Let_def split: option.splits)

theorem nextUnstartedTransactionWithNonce_order_witness:
  "nextUnstartedTransactionWithNonce eb1 q1 5 = Inr (Some (etx3\<lparr>Nonce := Some 7\<rparr>))
   \<and> queue_order etx3 etx2
   \<and> nextUnstartedTransactionWithNonce eb1 q1 6 = Inr None"
  using nextUnstartedTransactionWithNonce_order [of q1 5 eb1]
        nextUnstartedTransactionWithNonce_order [of q1 6 eb1]
  by (simp add: nextUnstartedTransactionWithNonce_def findNextUnstartedTransactionFromAddress_def
        GetNextNonce_def queue_order_def q1_def etx1_def etx2_def etx3_def eb1_def less_eq_prod_def)

subsection \<open>Saving a fatally errored transaction\<close>

lemma filter_update_other_rows:
  "(\<And>r. ID (f r) = ID r) \<Longrightarrow>
   filter (\<lambda>r. ID r \<noteq> i) (map (\<lambda>r. if ID r = i then f r else r) xs) = filter (\<lambda>r. ID r \<noteq> i) xs"
  by (induction xs) auto

lemma saveFatallyErroredTransaction_success:
  assumes "saveFatallyErroredTransaction eb q etx = (None, q', etx')"
  shows "State etx = EthTxInProgress
         \<and> (\<exists>s. Error etx = Some s \<and> resumePipeline eb etx s = None)
         \<and> (\<exists>r\<in>set (eth_txes q). ID r = ID etx)
         \<and> q' = q\<lparr>eth_tx_attempts := filter (\<lambda>a. EthTxID a \<noteq> ID etx) (eth_tx_attempts q),
                  eth_txes := map (\<lambda>r. if ID r = ID etx
                                        then r\<lparr>State := EthTxFatalError, Error := Error etx,
                                               BroadcastAt := None, Nonce := None\<rparr>
                                        else r) (eth_txes q)\<rparr>
         \<and> State etx' = EthTxFatalError \<and> Nonce etx' = None"
  using assms
  by (auto simp: saveFatallyErroredTransaction_def Let_def
           split: if_splits option.splits sum.splits prod.splits
           dest!: update_eth_txes_returning_Inr)

lemma saveFatallyErroredTransaction_failure:
  "saveFatallyErroredTransaction eb q etx = (Some e, q', etx') \<Longrightarrow> q' = q"
  by (auto simp: saveFatallyErroredTransaction_def Let_def
           split: if_splits option.splits sum.splits prod.splits)

lemma saveFatallyErroredTransaction_succeeds:
  assumes "State etx = EthTxInProgress" "Error etx = Some s" "resumePipeline eb etx s = None"
    "\<exists>r\<in>set (eth_txes q). ID r = ID etx"
  shows "\<exists>q' etx'. saveFatallyErroredTransaction eb q etx = (None, q', etx')"
proof -
  from assms(4) have "find (\<lambda>r. ID r = ID etx) (eth_txes q) \<noteq> None"
    by (auto simp: find_None_iff)
  with assms(1-3) show ?thesis
    by (auto simp: saveFatallyErroredTransaction_def update_eth_txes_returning_def Let_def
             split: option.splits)
qed

lemma saveFatallyErroredTransaction_not_in_progress:
  "State etx \<noteq> EthTxInProgress \<Longrightarrow> \<exists>e. saveFatallyErroredTransaction eb q etx = (Some e, q, etx)"
  by (simp add: saveFatallyErroredTransaction_def)

lemma NewEthBroadcaster_resumePipeline:
  "resumePipeline (NewEthBroadcaster chain dryRun cfg signTx est resume) etx s = None"
  by (simp add: resumePipeline_def NewEthBroadcaster_def split: option.splits)

lemma eb1_built:
  "eb1 = NewEthBroadcaster 1 (simulateTransaction eb1) (config eb1) (SignTx eb1) (estimator eb1) resume"
  by (simp add: NewEthBroadcaster_def eb1_def)

text \<open>
  C6. \<open>saveFatallyErroredTransaction\<close> of a broadcaster that \<open>NewEthBroadcaster\<close> has
  built, whatever resume callback was handed to the constructor. For a transaction in
  progress with its error string set that has a row, it returns no error; every row of
  the transaction is then in state \<^verbatim>\<open>fatal_error\<close> with nonce and \<^verbatim>\<open>broadcast_at\<close> null
  and the error string recorded, no attempt of the transaction remains, the key states
  (so every \<^verbatim>\<open>next_nonce\<close>) are as before, and the rows of other transactions and
  their attempts are as before. It returns no error in that case only. For a
  transaction that is not in progress it returns an error and changes neither the store
  nor the caller's struct; on every error the store is unchanged.
\<close>

theorem saveFatallyErroredTransaction_frame:
  assumes "saveFatallyErroredTransaction (NewEthBroadcaster chain dryRun cfg signTx est resume) q etx
             = (err, q', etx')"
  shows "(State etx = EthTxInProgress \<and> Error etx = Some s \<and> (\<exists>r\<in>set (eth_txes q). ID r = ID etx) \<longrightarrow>
            err = None
          \<and> (\<forall>r\<in>set (eth_txes q'). ID r = ID etx \<longrightarrow>
                State r = EthTxFatalError \<and> Nonce r = None \<and> BroadcastAt r = None \<and> Error r = Some s)
          \<and> (\<exists>r\<in>set (eth_txes q'). ID r = ID etx)
          \<and> (\<forall>a\<in>set (eth_tx_attempts q'). EthTxID a \<noteq> ID etx)
          \<and> eth_key_states q' = eth_key_states q
          \<and> filter (\<lambda>r. ID r \<noteq> ID etx) (eth_txes q') = filter (\<lambda>r. ID r \<noteq> ID etx) (eth_txes q)
          \<and> eth_tx_attempts q' = filter (\<lambda>a. EthTxID a \<noteq> ID etx) (eth_tx_attempts q)
          \<and> State etx' = EthTxFatalError \<and> Nonce etx' = None)
       \<and> (err = None \<longrightarrow>
            State etx = EthTxInProgress \<and> Error etx \<noteq> None \<and> (\<exists>r\<in>set (eth_txes q). ID r = ID etx))
       \<and> (State etx \<noteq> EthTxInProgress \<longrightarrow> err \<noteq> None \<and> q' = q \<and> etx' = etx)
       \<and> (err \<noteq> None \<longrightarrow> q' = q)"
proof (intro conjI impI)
  let ?eb = "NewEthBroadcaster chain dryRun cfg signTx est resume"
  assume a: "State etx = EthTxInProgress \<and> Error etx = Some s \<and> (\<exists>r\<in>set (eth_txes q). ID r = ID etx)"
  with saveFatallyErroredTransaction_succeeds[of etx s ?eb q] NewEthBroadcaster_resumePipeline[of chain dryRun cfg signTx est resume etx s]
  obtain qr er where "saveFatallyErroredTransaction ?eb q etx = (None, qr, er)"
    by blast
  with assms have e: "err = None" and ok: "saveFatallyErroredTransaction ?eb q etx = (None, q', etx')"
    by simp_all
  note r = saveFatallyErroredTransaction_success[OF ok]
  from r have q': "q' = q\<lparr>eth_tx_attempts := filter (\<lambda>a. EthTxID a \<noteq> ID etx) (eth_tx_attempts q),
                  eth_txes := map (\<lambda>r. if ID r = ID etx
                                        then r\<lparr>State := EthTxFatalError, Error := Error etx,
                                               BroadcastAt := None, Nonce := None\<rparr>
                                        else r) (eth_txes q)\<rparr>"
    by blast
  from e show "err = None" .
  from r show "State etx' = EthTxFatalError" and "Nonce etx' = None" by blast+
  from q' a show "\<forall>r\<in>set (eth_txes q'). ID r = ID etx \<longrightarrow>
      State r = EthTxFatalError \<and> Nonce r = None \<and> BroadcastAt r = None \<and> Error r = Some s"
    by auto
  from a obtain r0 where r0: "r0 \<in> set (eth_txes q)" "ID r0 = ID etx"
    by blast
  then have "r0\<lparr>State := EthTxFatalError, Error := Error etx, BroadcastAt := None, Nonce := None\<rparr>
               \<in> set (eth_txes q')"
    unfolding q' by (force simp: image_iff)
  moreover have "ID (r0\<lparr>State := EthTxFatalError, Error := Error etx, BroadcastAt := None, Nonce := None\<rparr>)
                   = ID etx"
    using r0 by simp
  ultimately show "\<exists>r\<in>set (eth_txes q'). ID r = ID etx"
    by blast
  from q' show "\<forall>a\<in>set (eth_tx_attempts q'). EthTxID a \<noteq> ID etx"
    by simp
  from q' show "eth_key_states q' = eth_key_states q"
    by simp
  from q' show "eth_tx_attempts q' = filter (\<lambda>a. EthTxID a \<noteq> ID etx) (eth_tx_attempts q)"
    by simp
  from q' show "filter (\<lambda>r. ID r \<noteq> ID etx) (eth_txes q') = filter (\<lambda>r. ID r \<noteq> ID etx) (eth_txes q)"
    by (simp add: filter_update_other_rows)
next
  assume "err = None"
  with assms saveFatallyErroredTransaction_success[of "NewEthBroadcaster chain dryRun cfg signTx est resume" q etx q' etx']
  show "State etx = EthTxInProgress" and "Error etx \<noteq> None" and "\<exists>r\<in>set (eth_txes q). ID r = ID etx"
    by auto
next
  assume "State etx \<noteq> EthTxInProgress"
  from saveFatallyErroredTransaction_not_in_progress[OF this, of "NewEthBroadcaster chain dryRun cfg signTx est resume" q] assms
  show "err \<noteq> None" and "q' = q" and "etx' = etx" by auto
next
  assume "err \<noteq> None"
  then obtain e where "err = Some e" by auto
  with assms saveFatallyErroredTransaction_failure show "q' = q" by blast
qed

text \<open>
  On the small store, with a broadcaster that was handed a failing resume callback:
  the in-progress transaction with a task run and an error string ends in
  \<^verbatim>\<open>fatal_error\<close> with its nonce cleared and its attempt deleted, \<^verbatim>\<open>next_nonce\<close>
  stays 7; the unstarted transaction 2 is refused and nothing changes.
\<close>

theorem saveFatallyErroredTransaction_frame_witness:
  "eb2 = NewEthBroadcaster 1 (simulateTransaction eb1) (config eb1) (SignTx eb1) (estimator eb1)
           (Some (\<lambda>taskRunID err. Some (New ''could not resume the run'')))
   \<and> State etx1_fatal = EthTxInProgress
   \<and> Error etx1_fatal = Some ''tx fee cap exceeded''
   \<and> PipelineTaskRunID etx1_fatal = Some 3
   \<and> (\<exists>r\<in>set (eth_txes q1). ID r = ID etx1_fatal)
   \<and> fst (saveFatallyErroredTransaction eb2 q1 etx1_fatal) = None
   \<and> map State (eth_txes (fst (snd (saveFatallyErroredTransaction eb2 q1 etx1_fatal))))
       = [EthTxFatalError, EthTxUnstarted, EthTxUnstarted]
   \<and> map Nonce (eth_txes (fst (snd (saveFatallyErroredTransaction eb2 q1 etx1_fatal)))) = [None, None, None]
   \<and> map BroadcastAt (eth_txes (fst (snd (saveFatallyErroredTransaction eb2 q1 etx1_fatal))))
       = [None, None, None]
   \<and> map Error (eth_txes (fst (snd (saveFatallyErroredTransaction eb2 q1 etx1_fatal))))
       = [Some ''tx fee cap exceeded'', None, None]
   \<and> eth_tx_attempts (fst (snd (saveFatallyErroredTransaction eb2 q1 etx1_fatal))) = []
   \<and> eth_key_states q1 (5, 1) = Some 7
   \<and> eth_key_states (fst (snd (saveFatallyErroredTransaction eb2 q1 etx1_fatal))) (5, 1) = Some 7
   \<and> State etx2 = EthTxUnstarted
   \<and> fst (saveFatallyErroredTransaction eb2 q1 etx2) \<noteq> None
   \<and> snd (saveFatallyErroredTransaction eb2 q1 etx2) = (q1, etx2)"
  using saveFatallyErroredTransaction_frame [of 1 "simulateTransaction eb1" "config eb1" "SignTx eb1"
          "estimator eb1" "Some (\<lambda>taskRunID err. Some (New ''could not resume the run''))" q1 etx1_fatal
          "fst (saveFatallyErroredTransaction eb2 q1 etx1_fatal)"
          "fst (snd (saveFatallyErroredTransaction eb2 q1 etx1_fatal))"
          "snd (snd (saveFatallyErroredTransaction eb2 q1 etx1_fatal))" "''tx fee cap exceeded''"]
        saveFatallyErroredTransaction_frame [of 1 "simulateTransaction eb1" "config eb1" "SignTx eb1"
          "estimator eb1" "Some (\<lambda>taskRunID err. Some (New ''could not resume the run''))" q1 etx2
          "fst (saveFatallyErroredTransaction eb2 q1 etx2)"
          "fst (snd (saveFatallyErroredTransaction eb2 q1 etx2))"
          "snd (snd (saveFatallyErroredTransaction eb2 q1 etx2))" "[]"]
  by (simp add: saveFatallyErroredTransaction_def resumePipeline_def update_eth_txes_returning_def
        NewEthBroadcaster_def q1_def etx1_def etx2_def etx3_def attempt1_def eb1_def eb2_def
        etx1_fatal_def Let_def)

subsection \<open>Handling the answer of the node\<close>

lemma handleInProgressEthTx_sent:
  assumes "is_sent eb etx attempt"
  shows "handleInProgressEthTx eb (sendError # sendErrors) q etx attempt t =
     (if IsTooExpensive sendError \<or> Fatal sendError then
        saved (saveFatallyErroredTransaction eb q (etx\<lparr>Error := Some (ErrorString sendError)\<rparr>)) [attempt]
      else
        let etx' = etx\<lparr>BroadcastAt := Some t\<rparr>;
            sendError1 = (if IsNonceTooLowError sendError \<or> IsReplacementUnderpriced sendError
                          then None else sendError)
        in if IsTerminallyUnderpriced sendError1 then
             sent attempt (tryAgainBumpingGas eb sendErrors q sendError1 etx' attempt t)
           else if IsFeeTooLow sendError1 \<or> IsFeeTooHigh sendError1 then
             sent attempt (tryAgainWithNewEstimation eb sendErrors q sendError1 etx' attempt t)
           else
             let sendError2 = (if IsTemporarilyUnderpriced sendError1 then None else sendError1)
             in if IsInsufficientEth sendError2 then
                  Some (map_option SendErr sendError2, q, [attempt])
                else case sendError2 of
                  None \<Rightarrow> saved (saveAttempt q etx' attempt EthTxAttemptBroadcast []) [attempt]
                | Some s \<Rightarrow>
                    Some (Some (Wrap (SendErr s) ''error while sending transaction %v''), q, [attempt]))"
  using assms
  by (cases "simulateTransaction eb attempt etx")
     (simp_all add: handleInProgressEthTx.simps[of eb "sendError # sendErrors"] is_sent_def)

lemma handleInProgressEthTx_nonce_consumed:
  assumes "is_sent eb etx attempt" "\<not> IsTooExpensive se" "\<not> Fatal se"
    "IsNonceTooLowError se \<or> IsReplacementUnderpriced se \<or> se = None"
  shows "handleInProgressEthTx eb (se # ses) q etx attempt t =
           saved (saveAttempt q (etx\<lparr>BroadcastAt := Some t\<rparr>) attempt EthTxAttemptBroadcast []) [attempt]"
  using assms by (auto simp: handleInProgressEthTx_sent Let_def)

lemma saveAttempt_succeeds:
  assumes "State etx = EthTxInProgress" "AttemptState attempt = EthTxAttemptInProgress"
    "Nonce etx = Some n" "eth_key_states q (FromAddress etx, EVMChainID etx) = Some n"
    "\<exists>r\<in>set (eth_txes q). ID r = ID etx" "\<exists>a\<in>set (eth_tx_attempts q). AttemptID a = AttemptID attempt"
  shows "\<exists>q' etx'. saveAttempt q etx attempt EthTxAttemptBroadcast [] = (None, q', etx')"
proof -
  from assms(5) have "find (\<lambda>r. ID r = ID etx) (eth_txes q) \<noteq> None"
    by (auto simp: find_None_iff)
  moreover from assms(6) have "find (\<lambda>a. AttemptID a = AttemptID attempt) (eth_tx_attempts q) \<noteq> None"
    by (auto simp: find_None_iff)
  ultimately show ?thesis
    using assms(1-4)
    by (auto simp: saveAttempt_def IncrementNextNonce_def update_eth_txes_returning_def
          update_eth_tx_attempts_returning_def Let_def split: option.splits)
qed

text \<open>
  C4. \<open>handleInProgressEthTx\<close> for a transaction that is handed to the node, when
  the node's answer is a nonce-too-low or replacement-underpriced error (and not one
  that the earlier tests take as too expensive or fatal). The outcome is the one for
  an answer without error: one call of \<open>saveAttempt\<close> with the new state broadcast,
  and nothing is sent again. Whenever that returns no error, the next nonce of the
  address is the old one, which was the nonce of the transaction, plus one, every
  row of the transaction is unconfirmed with the initial broadcast time, and the row
  of the attempt is broadcast. It does return no error when the attempt is in
  progress, the nonce of the transaction is the stored next nonce and both rows exist.
\<close>

theorem handleInProgressEthTx_nonce_too_low:
  assumes "is_sent eb etx attempt" "\<not> IsTooExpensive se" "\<not> Fatal se"
    "IsNonceTooLowError se \<or> IsReplacementUnderpriced se"
  shows "handleInProgressEthTx eb (se # ses) q etx attempt t =
           handleInProgressEthTx eb (None # ses) q etx attempt t
       \<and> handleInProgressEthTx eb (se # ses) q etx attempt t =
           saved (saveAttempt q (etx\<lparr>BroadcastAt := Some t\<rparr>) attempt EthTxAttemptBroadcast []) [attempt]
       \<and> (\<forall>q' log. handleInProgressEthTx eb (se # ses) q etx attempt t = Some (None, q', log) \<longrightarrow>
             log = [attempt]
           \<and> (\<exists>nonce. Nonce etx = Some nonce
                \<and> eth_key_states q (FromAddress etx, EVMChainID etx) = Some nonce
                \<and> eth_key_states q' = (eth_key_states q)((FromAddress etx, EVMChainID etx) \<mapsto> nonce + 1))
           \<and> eth_txes q' = map (\<lambda>r. if ID r = ID etx
                                     then r\<lparr>State := EthTxUnconfirmed, Error := Error etx,
                                            BroadcastAt := Some t\<rparr>
                                     else r) (eth_txes q)
           \<and> (\<exists>r\<in>set (eth_txes q). ID r = ID etx)
           \<and> eth_tx_attempts q' = map (\<lambda>a. if AttemptID a = AttemptID attempt
                                            then a\<lparr>AttemptState := EthTxAttemptBroadcast\<rparr>
                                            else a) (eth_tx_attempts q)
           \<and> (\<exists>a\<in>set (eth_tx_attempts q). AttemptID a = AttemptID attempt))
       \<and> (AttemptState attempt = EthTxAttemptInProgress \<and> Nonce etx = Some n
            \<and> eth_key_states q (FromAddress etx, EVMChainID etx) = Some n
            \<and> (\<exists>r\<in>set (eth_txes q). ID r = ID etx)
            \<and> (\<exists>a\<in>set (eth_tx_attempts q). AttemptID a = AttemptID attempt) \<longrightarrow>
           (\<exists>q'. handleInProgressEthTx eb (se # ses) q etx attempt t = Some (None, q', [attempt])))"
proof -
  have eq: "handleInProgressEthTx eb (se # ses) q etx attempt t =
           saved (saveAttempt q (etx\<lparr>BroadcastAt := Some t\<rparr>) attempt EthTxAttemptBroadcast []) [attempt]"
    using assms handleInProgressEthTx_nonce_consumed[of eb etx attempt se ses q t] by blast
  have eq0: "handleInProgressEthTx eb (None # ses) q etx attempt t =
           saved (saveAttempt q (etx\<lparr>BroadcastAt := Some t\<rparr>) attempt EthTxAttemptBroadcast []) [attempt]"
    using assms(1) handleInProgressEthTx_nonce_consumed[of eb etx attempt None ses q t] by simp
  have success: "log = [attempt]
           \<and> (\<exists>nonce. Nonce etx = Some nonce
                \<and> eth_key_states q (FromAddress etx, EVMChainID etx) = Some nonce
                \<and> eth_key_states q' = (eth_key_states q)((FromAddress etx, EVMChainID etx) \<mapsto> nonce + 1))
           \<and> eth_txes q' = map (\<lambda>r. if ID r = ID etx
                                     then r\<lparr>State := EthTxUnconfirmed, Error := Error etx,
                                            BroadcastAt := Some t\<rparr>
                                     else r) (eth_txes q)
           \<and> (\<exists>r\<in>set (eth_txes q). ID r = ID etx)
           \<and> eth_tx_attempts q' = map (\<lambda>a. if AttemptID a = AttemptID attempt
                                            then a\<lparr>AttemptState := EthTxAttemptBroadcast\<rparr>
                                            else a) (eth_tx_attempts q)
           \<and> (\<exists>a\<in>set (eth_tx_attempts q). AttemptID a = AttemptID attempt)"
    if h: "handleInProgressEthTx eb (se # ses) q etx attempt t = Some (None, q', log)" for q' log
  proof -
    from h eq obtain etx' where
      s: "saveAttempt q (etx\<lparr>BroadcastAt := Some t\<rparr>) attempt EthTxAttemptBroadcast [] = (None, q', etx')"
      and l: "log = [attempt]"
      by (auto simp: saved_def split: prod.splits)
    from saveAttempt_success[OF s] l show ?thesis
      by auto
  qed
  have reach: "\<exists>q'. handleInProgressEthTx eb (se # ses) q etx attempt t = Some (None, q', [attempt])"
    if c: "AttemptState attempt = EthTxAttemptInProgress \<and> Nonce etx = Some n
            \<and> eth_key_states q (FromAddress etx, EVMChainID etx) = Some n
            \<and> (\<exists>r\<in>set (eth_txes q). ID r = ID etx)
            \<and> (\<exists>a\<in>set (eth_tx_attempts q). AttemptID a = AttemptID attempt)"
  proof -
    from assms(1) have "State (etx\<lparr>BroadcastAt := Some t\<rparr>) = EthTxInProgress"
      by (simp add: is_sent_def)
    with c saveAttempt_succeeds[of "etx\<lparr>BroadcastAt := Some t\<rparr>" attempt n q]
    obtain q' etx' where
      "saveAttempt q (etx\<lparr>BroadcastAt := Some t\<rparr>) attempt EthTxAttemptBroadcast [] = (None, q', etx')"
      by auto
    with eq show ?thesis
      by (simp add: saved_def)
  qed
  have same: "handleInProgressEthTx eb (se # ses) q etx attempt t =
           handleInProgressEthTx eb (None # ses) q etx attempt t"
    using eq eq0 by simp
  show ?thesis
    apply (rule conjI, rule same)
    apply (rule conjI, rule eq)
    apply (rule conjI)
     apply (intro allI impI, erule success)
    apply (rule impI, erule reach)
    done
qed
theorem handleInProgressEthTx_nonce_too_low_witness:
  "\<exists>q'. handleInProgressEthTx eb1 [Some nonce_too_low] q1 etx1 attempt1 50 = Some (None, q', [attempt1])
      \<and> eth_key_states q' (5, 1) = Some 8
      \<and> map State (eth_txes q') = [EthTxUnconfirmed, EthTxUnstarted, EthTxUnstarted]
      \<and> map BroadcastAt (eth_txes q') = [Some 50, None, None]
      \<and> map AttemptState (eth_tx_attempts q') = [EthTxAttemptBroadcast]"
proof -
  have s: "is_sent eb1 etx1 attempt1"
    by (simp add: is_sent_def etx1_def)
  have c: "\<not> IsTooExpensive (Some nonce_too_low)" "\<not> Fatal (Some nonce_too_low)"
    "IsNonceTooLowError (Some nonce_too_low) \<or> IsReplacementUnderpriced (Some nonce_too_low)"
    by (simp_all add: nonce_too_low_def no_flags_def)
  note t = handleInProgressEthTx_nonce_too_low [OF s c, of "[]" q1 50 7]
  note effect = t [THEN conjunct2, THEN conjunct2, THEN conjunct1, rule_format]
  note returns = t [THEN conjunct2, THEN conjunct2, THEN conjunct2, rule_format]
  have "AttemptState attempt1 = EthTxAttemptInProgress \<and> Nonce etx1 = Some 7
        \<and> eth_key_states q1 (FromAddress etx1, EVMChainID etx1) = Some 7
        \<and> (\<exists>r\<in>set (eth_txes q1). ID r = ID etx1)
        \<and> (\<exists>a\<in>set (eth_tx_attempts q1). AttemptID a = AttemptID attempt1)"
    by (simp add: q1_def etx1_def attempt1_def)
  from returns [OF this] obtain q' where
    h: "handleInProgressEthTx eb1 [Some nonce_too_low] q1 etx1 attempt1 50 = Some (None, q', [attempt1])"
    by (rule exE)
  from effect [OF h] have "eth_key_states q' (5, 1) = Some 8
      \<and> map State (eth_txes q') = [EthTxUnconfirmed, EthTxUnstarted, EthTxUnstarted]
      \<and> map BroadcastAt (eth_txes q') = [Some 50, None, None]
      \<and> map AttemptState (eth_tx_attempts q') = [EthTxAttemptBroadcast]"
    by (simp add: q1_def etx1_def etx2_def etx3_def attempt1_def)
  with h show ?thesis
    by (intro exI [of _ q']) simp
qed

subsection \<open>Bumping gas after a terminally underpriced answer\<close>

lemma handleInProgressEthTx_terminally_underpriced:
  assumes "is_sent eb etx attempt" "\<not> IsTooExpensive se" "\<not> Fatal se"
    "\<not> IsNonceTooLowError se" "\<not> IsReplacementUnderpriced se" "IsTerminallyUnderpriced se"
  shows "handleInProgressEthTx eb (se # ses) q etx attempt t =
           sent attempt (tryAgainBumpingGas eb ses q se (etx\<lparr>BroadcastAt := Some t\<rparr>) attempt t)"
  using assms by (simp add: handleInProgressEthTx_sent Let_def)

text \<open>
  C8. For an attempt with \<^verbatim>\<open>tx_type\<close> 0x2, \<open>tryAgainBumpingGas\<close> returns the error
  that bumping is not supported for EIP-1559 transactions, with the store unchanged
  and nothing sent. So \<open>handleInProgressEthTx\<close>, for a transaction handed to the node
  with such an attempt and an answer classified as terminally underpriced, returns
  that error to the worker: the store is unchanged (no replacement attempt is saved)
  and the one send of the original attempt is the only one.
\<close>

theorem tryAgainBumpingGas_dynamic_fee_error:
  "(TxType attempt = 2 \<longrightarrow>
      tryAgainBumpingGas eb ses q se etx attempt t =
        Some (Some (New ''bumping gas on initial send is not supported for EIP-1559 transactions''), q, []))
   \<and> (TxType attempt = 2 \<and> is_sent eb etx attempt \<and> \<not> IsTooExpensive se \<and> \<not> Fatal se
        \<and> \<not> IsNonceTooLowError se \<and> \<not> IsReplacementUnderpriced se \<and> IsTerminallyUnderpriced se \<longrightarrow>
      handleInProgressEthTx eb (se # ses) q etx attempt t =
        Some (Some (New ''bumping gas on initial send is not supported for EIP-1559 transactions''), q, [attempt]))"
  by (simp add: handleInProgressEthTx_terminally_underpriced tryAgainBumpingGas.simps sent_def)

theorem tryAgainBumpingGas_dynamic_fee_error_witness:
  "handleInProgressEthTx eb1 [Some terminally_underpriced] q1 etx1 attempt1_dynamic 50 =
     Some (Some (New ''bumping gas on initial send is not supported for EIP-1559 transactions''), q1,
           [attempt1_dynamic])
   \<and> tryAgainBumpingGas eb1 [] q1 (Some terminally_underpriced) etx1 attempt1_dynamic 50 =
     Some (Some (New ''bumping gas on initial send is not supported for EIP-1559 transactions''), q1, [])"
  using tryAgainBumpingGas_dynamic_fee_error
          [of attempt1_dynamic eb1 "[]" q1 "Some terminally_underpriced" etx1 50]
  by (simp add: is_sent_def etx1_def attempt1_dynamic_def attempt1_def terminally_underpriced_def
        no_flags_def)

lemma tryAgainBumpingGas_at_ceiling:
  assumes "TxType attempt \<noteq> 2" "GasPrice attempt = Some price"
    "BumpLegacyGas (estimator eb) (Some price) (GasLimit etx) = Inr (price, limit)"
    "price = EvmMaxGasPriceWei (config eb)"
  shows "tryAgainBumpingGas eb ses q se etx attempt t =
           Some (Some (New ''Hit gas price bump ceiling, will not bump further. This is a terminal error''), q, [])"
  using assms by (simp add: tryAgainBumpingGas.simps)

text \<open>
  C10. For a legacy attempt, when the estimator's bumped gas price equals the gas
  price of the attempt and the configured \<^verbatim>\<open>EvmMaxGasPriceWei\<close>, \<open>tryAgainBumpingGas\<close>
  returns the terminal error with the store unchanged and nothing sent; so the
  handling of a terminally underpriced answer ends there, with the store unchanged
  and the one send of the original attempt the only one.
\<close>

theorem tryAgainBumpingGas_ceiling:
  "(TxType attempt \<noteq> 2 \<and> GasPrice attempt = Some price
      \<and> BumpLegacyGas (estimator eb) (GasPrice attempt) (GasLimit etx) = Inr (price, limit)
      \<and> price = EvmMaxGasPriceWei (config eb) \<longrightarrow>
      tryAgainBumpingGas eb ses q se etx attempt t =
        Some (Some (New ''Hit gas price bump ceiling, will not bump further. This is a terminal error''), q, []))
   \<and> (TxType attempt \<noteq> 2 \<and> GasPrice attempt = Some price
      \<and> BumpLegacyGas (estimator eb) (GasPrice attempt) (GasLimit etx) = Inr (price, limit)
      \<and> price = EvmMaxGasPriceWei (config eb)
      \<and> is_sent eb etx attempt \<and> \<not> IsTooExpensive se \<and> \<not> Fatal se
      \<and> \<not> IsNonceTooLowError se \<and> \<not> IsReplacementUnderpriced se \<and> IsTerminallyUnderpriced se \<longrightarrow>
      handleInProgressEthTx eb (se # ses) q etx attempt t =
        Some (Some (New ''Hit gas price bump ceiling, will not bump further. This is a terminal error''), q,
              [attempt]))"
proof (intro conjI impI)
  assume a: "TxType attempt \<noteq> 2 \<and> GasPrice attempt = Some price
      \<and> BumpLegacyGas (estimator eb) (GasPrice attempt) (GasLimit etx) = Inr (price, limit)
      \<and> price = EvmMaxGasPriceWei (config eb)"
  then show "tryAgainBumpingGas eb ses q se etx attempt t =
        Some (Some (New ''Hit gas price bump ceiling, will not bump further. This is a terminal error''), q, [])"
    using tryAgainBumpingGas_at_ceiling [of attempt price eb etx limit ses q se t] by auto
next
  assume a: "TxType attempt \<noteq> 2 \<and> GasPrice attempt = Some price
      \<and> BumpLegacyGas (estimator eb) (GasPrice attempt) (GasLimit etx) = Inr (price, limit)
      \<and> price = EvmMaxGasPriceWei (config eb)
      \<and> is_sent eb etx attempt \<and> \<not> IsTooExpensive se \<and> \<not> Fatal se
      \<and> \<not> IsNonceTooLowError se \<and> \<not> IsReplacementUnderpriced se \<and> IsTerminallyUnderpriced se"
  then have "tryAgainBumpingGas eb ses q se (etx\<lparr>BroadcastAt := Some t\<rparr>) attempt t =
        Some (Some (New ''Hit gas price bump ceiling, will not bump further. This is a terminal error''), q, [])"
    using tryAgainBumpingGas_at_ceiling [of attempt price eb "etx\<lparr>BroadcastAt := Some t\<rparr>" limit ses q se t]
    by auto
  with a show "handleInProgressEthTx eb (se # ses) q etx attempt t =
        Some (Some (New ''Hit gas price bump ceiling, will not bump further. This is a terminal error''), q,
              [attempt])"
    by (simp add: handleInProgressEthTx_terminally_underpriced sent_def)
qed

theorem tryAgainBumpingGas_ceiling_witness:
  "handleInProgressEthTx eb1 [Some terminally_underpriced] q1 etx1 attempt1_ceiling 50 =
     Some (Some (New ''Hit gas price bump ceiling, will not bump further. This is a terminal error''), q1,
           [attempt1_ceiling])
   \<and> tryAgainBumpingGas eb1 [] q1 (Some terminally_underpriced) etx1 attempt1_ceiling 50 =
     Some (Some (New ''Hit gas price bump ceiling, will not bump further. This is a terminal error''), q1, [])"
  using tryAgainBumpingGas_ceiling
          [of attempt1_ceiling 500 eb1 etx1 21000 "[]" q1 "Some terminally_underpriced" 50]
  by (simp add: is_sent_def etx1_def attempt1_ceiling_def attempt1_def terminally_underpriced_def
        no_flags_def eb1_def)

subsection \<open>One step of handling, and the retries\<close>

lemma saved_SomeD:
  "saved r log = Some (err, q', log') \<Longrightarrow> log' = log \<and> (\<exists>etx'. r = (err, q', etx'))"
  by (auto simp: saved_def split: prod.splits)

lemma sent_SomeD:
  "sent attempt r = Some (err, q', log) \<Longrightarrow> \<exists>rest. log = attempt # rest \<and> r = Some (err, q', rest)"
  by (auto simp: sent_def split: prod.splits)

lemma tryAgainWithNewGas_SomeD:
  assumes "tryAgainWithNewGas eb ses q etx attempt t p l = Some (err, q', log)"
  shows "(log = [] \<and> q' = q \<and> err \<noteq> None)
       \<or> (\<exists>r0 r qr. NewLegacyAttempt eb etx p l = Inr r0
             \<and> saveReplacementInProgressAttempt q attempt r0 = Inr (qr, r)
             \<and> handleInProgressEthTx eb ses qr etx r t = Some (err, q', log))"
  using assms
  by (auto simp: tryAgainWithNewGas.simps split: sum.splits prod.splits)

lemma tryAgainBumpingGas_SomeD:
  assumes "tryAgainBumpingGas eb ses q se etx attempt t = Some (err, q', log)"
  shows "(log = [] \<and> q' = q \<and> err \<noteq> None)
       \<or> (\<exists>p l. BumpLegacyGas (estimator eb) (GasPrice attempt) (GasLimit etx) = Inr (p, l)
             \<and> tryAgainWithNewGas eb ses q etx attempt t p l = Some (err, q', log))"
  using assms
  by (auto simp: tryAgainBumpingGas.simps split: if_splits sum.splits prod.splits option.splits)

lemma tryAgainWithNewEstimation_SomeD:
  assumes "tryAgainWithNewEstimation eb ses q se etx attempt t = Some (err, q', log)"
  shows "(log = [] \<and> q' = q \<and> err \<noteq> None)
       \<or> (\<exists>p l. GetLegacyGas (estimator eb) (EncodedPayload etx) (GasLimit etx) True = Inr (p, l)
             \<and> tryAgainWithNewGas eb ses q etx attempt t p l = Some (err, q', log))"
  using assms
  by (auto simp: tryAgainWithNewEstimation.simps split: sum.splits prod.splits)

lemma handleInProgressEthTx_not_in_progress:
  "State etx \<noteq> EthTxInProgress \<Longrightarrow>
   handleInProgressEthTx eb ses q etx attempt t =
     Some (Some (New ''invariant violation: expected transaction %v to be in_progress, it was %s''), q, [])"
  by (simp add: handleInProgressEthTx.simps)

lemma handleInProgressEthTx_reverted:
  "State etx = EthTxInProgress \<Longrightarrow> Simulate etx \<Longrightarrow>
   simulateTransaction eb attempt etx = SimulationRPCError jErr \<Longrightarrow>
   handleInProgressEthTx eb ses q etx attempt t =
     saved (saveFatallyErroredTransaction eb q
              (etx\<lparr>Error := Some (''transaction reverted during simulation: '' @ jErr)\<rparr>)) []"
  by (simp add: handleInProgressEthTx.simps)

lemma handleInProgressEthTx_no_answer:
  "is_sent eb etx attempt \<Longrightarrow> handleInProgressEthTx eb [] q etx attempt t = None"
  by (cases "Simulate etx"; cases "simulateTransaction eb attempt etx")
     (simp_all add: handleInProgressEthTx.simps is_sent_def)

lemma tryAgain_SomeD:
  assumes "tryAgainBumpingGas eb ses q se etx attempt t = Some (err, q', rest)
           \<or> tryAgainWithNewEstimation eb ses q se etx attempt t = Some (err, q', rest)"
  shows "(rest = [] \<and> q' = q \<and> err \<noteq> None)
       \<or> (\<exists>p l r0 r qr.
             (GetLegacyGas (estimator eb) (EncodedPayload etx) (GasLimit etx) True = Inr (p, l)
              \<or> BumpLegacyGas (estimator eb) (GasPrice attempt) (GasLimit etx) = Inr (p, l))
           \<and> NewLegacyAttempt eb etx p l = Inr r0
           \<and> saveReplacementInProgressAttempt q attempt r0 = Inr (qr, r)
           \<and> handleInProgressEthTx eb ses qr etx r t = Some (err, q', rest))"
proof -
  from assms consider
      (stop) "rest = []" "q' = q" "err \<noteq> None"
    | (again) p l where
        "GetLegacyGas (estimator eb) (EncodedPayload etx) (GasLimit etx) True = Inr (p, l)
         \<or> BumpLegacyGas (estimator eb) (GasPrice attempt) (GasLimit etx) = Inr (p, l)"
        "tryAgainWithNewGas eb ses q etx attempt t p l = Some (err, q', rest)"
    using tryAgainBumpingGas_SomeD[of eb ses q se etx attempt t err q' rest]
      tryAgainWithNewEstimation_SomeD[of eb ses q se etx attempt t err q' rest]
    by blast
  then show ?thesis
  proof cases
    case stop
    then show ?thesis by simp
  next
    case again
    from tryAgainWithNewGas_SomeD[OF again(2)] again(1) show ?thesis
      by blast
  qed
qed

text \<open>
  What one call of \<open>handleInProgressEthTx\<close> does: it ends without a retry (with an
  error and the store unchanged, or with the transaction saved as fatally errored, or
  with the attempt saved as broadcast), or it has sent the attempt, saved a
  replacement from \<open>NewLegacyAttempt\<close> priced by the estimator, and handled that.
\<close>

lemma handleInProgressEthTx_step:
  assumes "handleInProgressEthTx eb ses q etx attempt t = Some (err, q', log)"
  shows "((log = [] \<or> log = [attempt])
           \<and> ((err \<noteq> None \<and> q' = q)
             \<or> (\<exists>s etx'. saveFatallyErroredTransaction eb q (etx\<lparr>Error := Some s\<rparr>) = (None, q', etx')
                   \<and> err = None)
             \<or> (\<exists>etx'. saveAttempt q (etx\<lparr>BroadcastAt := Some t\<rparr>) attempt EthTxAttemptBroadcast []
                          = (None, q', etx')
                   \<and> err = None \<and> log = [attempt])))
       \<or> (\<exists>se ses' p l r0 r qr rest.
             ses = se # ses' \<and> log = attempt # rest
           \<and> (GetLegacyGas (estimator eb) (EncodedPayload etx) (GasLimit etx) True = Inr (p, l)
              \<or> BumpLegacyGas (estimator eb) (GasPrice attempt) (GasLimit etx) = Inr (p, l))
           \<and> NewLegacyAttempt eb (etx\<lparr>BroadcastAt := Some t\<rparr>) p l = Inr r0
           \<and> saveReplacementInProgressAttempt q attempt r0 = Inr (qr, r)
           \<and> handleInProgressEthTx eb ses' qr (etx\<lparr>BroadcastAt := Some t\<rparr>) r t = Some (err, q', rest))"
    (is "?ends \<or> ?retries")
proof (cases "is_sent eb etx attempt")
  case False
  show ?thesis
  proof (cases "State etx = EthTxInProgress")
    case False
    from assms[unfolded handleInProgressEthTx_not_in_progress[OF False]] show ?thesis
      by auto
  next
    case True
    with \<open>\<not> is_sent eb etx attempt\<close> obtain jErr where
      "Simulate etx" "simulateTransaction eb attempt etx = SimulationRPCError jErr"
      by (cases "simulateTransaction eb attempt etx") (auto simp: is_sent_def)
    from assms[unfolded handleInProgressEthTx_reverted[OF True this]] obtain etx' where
      "saveFatallyErroredTransaction eb q
         (etx\<lparr>Error := Some (''transaction reverted during simulation: '' @ jErr)\<rparr>) = (err, q', etx')"
      and "log = []"
      by (auto dest!: saved_SomeD)
    then show ?thesis
      by (cases err) (auto dest: saveFatallyErroredTransaction_failure)
  qed
next
  case True
  show ?thesis
  proof (cases ses)
    case Nil
    with True assms show ?thesis
      by (simp add: handleInProgressEthTx_no_answer)
  next
    case (Cons se ses')
    note h = assms[unfolded Cons handleInProgressEthTx_sent[OF True]]
    show ?thesis
    proof (cases "IsTooExpensive se \<or> Fatal se")
      case True
      with h obtain etx' where
        "saveFatallyErroredTransaction eb q (etx\<lparr>Error := Some (ErrorString se)\<rparr>) = (err, q', etx')"
        and "log = [attempt]"
        by (auto dest!: saved_SomeD)
      then show ?thesis
        by (cases err) (auto dest: saveFatallyErroredTransaction_failure)
    next
      case nf: False
      define se1 where "se1 = (if IsNonceTooLowError se \<or> IsReplacementUnderpriced se then None else se)"
      show ?thesis
      proof (cases "IsTerminallyUnderpriced se1 \<or> IsFeeTooLow se1 \<or> IsFeeTooHigh se1")
        case True
        with h nf obtain rest where l: "log = attempt # rest"
          and "tryAgainBumpingGas eb ses' q se1 (etx\<lparr>BroadcastAt := Some t\<rparr>) attempt t = Some (err, q', rest)
               \<or> tryAgainWithNewEstimation eb ses' q se1 (etx\<lparr>BroadcastAt := Some t\<rparr>) attempt t
                    = Some (err, q', rest)"
          by (auto simp: Let_def se1_def dest!: sent_SomeD split: if_splits)
        from tryAgain_SomeD[OF this(2)] have
          "(rest = [] \<and> q' = q \<and> err \<noteq> None)
           \<or> (\<exists>p l r0 r qr.
                 (GetLegacyGas (estimator eb) (EncodedPayload etx) (GasLimit etx) True = Inr (p, l)
                  \<or> BumpLegacyGas (estimator eb) (GasPrice attempt) (GasLimit etx) = Inr (p, l))
               \<and> NewLegacyAttempt eb (etx\<lparr>BroadcastAt := Some t\<rparr>) p l = Inr r0
               \<and> saveReplacementInProgressAttempt q attempt r0 = Inr (qr, r)
               \<and> handleInProgressEthTx eb ses' qr (etx\<lparr>BroadcastAt := Some t\<rparr>) r t
                     = Some (err, q', rest))"
          by simp
        then consider
            (stop) "rest = []" "q' = q" "err \<noteq> None"
          | (again) p l r0 r qr where
              "GetLegacyGas (estimator eb) (EncodedPayload etx) (GasLimit etx) True = Inr (p, l)
               \<or> BumpLegacyGas (estimator eb) (GasPrice attempt) (GasLimit etx) = Inr (p, l)"
              "NewLegacyAttempt eb (etx\<lparr>BroadcastAt := Some t\<rparr>) p l = Inr r0"
              "saveReplacementInProgressAttempt q attempt r0 = Inr (qr, r)"
              "handleInProgressEthTx eb ses' qr (etx\<lparr>BroadcastAt := Some t\<rparr>) r t = Some (err, q', rest)"
          by blast
        then show ?thesis
        proof cases
          case stop
          with l show ?thesis by simp
        next
          case again
          with Cons l have ?retries
            by blast
          then show ?thesis ..
        qed
      next
        case False
        with h nf have
          "log = [attempt]
           \<and> ((err \<noteq> None \<and> q' = q)
              \<or> (\<exists>etx'. saveAttempt q (etx\<lparr>BroadcastAt := Some t\<rparr>) attempt EthTxAttemptBroadcast []
                           = (err, q', etx')))"
          by (cases se) (auto simp: Let_def se1_def dest!: saved_SomeD split: if_splits option.splits)
        then show ?thesis
          by (cases err) (auto dest: saveAttempt_failure)
      qed
    qed
  qed
qed
subsection \<open>Replacement attempts\<close>

lemma NewLegacyAttempt_Inr:
  "NewLegacyAttempt eb etx p l = Inr r \<Longrightarrow>
     TxType r = 0 \<and> GasPrice r = Some p \<and> GasTipCap r = None \<and> GasFeeCap r = None
     \<and> ChainSpecificGasLimit r = l \<and> EthTxID r = ID etx \<and> AttemptState r = EthTxAttemptInProgress"
  by (auto simp: NewLegacyAttempt_def split: sum.splits prod.splits)

lemma saveReplacementInProgressAttempt_Inr:
  "saveReplacementInProgressAttempt q old r0 = Inr (q', r) \<Longrightarrow>
     (\<exists>i. r = r0\<lparr>AttemptID := i\<rparr>) \<and> eth_txes q' = eth_txes q \<and> eth_key_states q' = eth_key_states q
     \<and> eth_tx_attempts q' = filter (\<lambda>a. AttemptID a \<noteq> AttemptID old) (eth_tx_attempts q) @ [r]"
  by (auto simp: saveReplacementInProgressAttempt_def Let_def)

text \<open>
  C9. In every run of \<open>handleInProgressEthTx\<close>, whatever the configuration (so also
  with \<^verbatim>\<open>EvmEIP1559DynamicFees\<close> enabled) and whatever the type of the original
  attempt, the attempts sent are the original one followed by the replacements, and
  every replacement is what \<open>NewLegacyAttempt\<close> built for the transaction (with the id
  given at insertion) from a gas price and gas limit that the estimator's
  \<open>GetLegacyGas\<close> (with a forced refetch) or \<open>BumpLegacyGas\<close> returned: a legacy
  attempt, with \<^verbatim>\<open>tx_type\<close> 0x0, that gas price, no tip cap and no fee cap.
\<close>

theorem replacement_attempts_are_legacy:
  assumes "handleInProgressEthTx eb ses q etx attempt t = Some (err, q', log)"
  shows "log = []
     \<or> (\<exists>replacements. log = attempt # replacements
          \<and> (\<forall>r\<in>set replacements.
                TxType r = 0 \<and> GasTipCap r = None \<and> GasFeeCap r = None
              \<and> (\<exists>p l. GasPrice r = Some p \<and> ChainSpecificGasLimit r = l
                    \<and> (GetLegacyGas (estimator eb) (EncodedPayload etx) (GasLimit etx) True = Inr (p, l)
                       \<or> (\<exists>g. BumpLegacyGas (estimator eb) g (GasLimit etx) = Inr (p, l)))
                    \<and> (\<exists>r0 i. NewLegacyAttempt eb (etx\<lparr>BroadcastAt := Some t\<rparr>) p l = Inr r0
                          \<and> r = r0\<lparr>AttemptID := i\<rparr>))))"
proof -
  define legacy where "legacy = (\<lambda>r :: EthTxAttempt.
      TxType r = 0 \<and> GasTipCap r = None \<and> GasFeeCap r = None
    \<and> (\<exists>p l. GasPrice r = Some p \<and> ChainSpecificGasLimit r = l
          \<and> (GetLegacyGas (estimator eb) (EncodedPayload etx) (GasLimit etx) True = Inr (p, l)
             \<or> (\<exists>g. BumpLegacyGas (estimator eb) g (GasLimit etx) = Inr (p, l)))
          \<and> (\<exists>r0 i. NewLegacyAttempt eb (etx\<lparr>BroadcastAt := Some t\<rparr>) p l = Inr r0
                \<and> r = r0\<lparr>AttemptID := i\<rparr>)))"
  have "log = [] \<or> (\<exists>replacements. log = attempt # replacements \<and> (\<forall>r\<in>set replacements. legacy r))"
    if "handleInProgressEthTx eb ses q etx' attempt t = Some (err, q', log)"
      and "etx'\<lparr>BroadcastAt := Some t\<rparr> = etx\<lparr>BroadcastAt := Some t\<rparr>"
    for etx'
    using that
  proof (induction ses arbitrary: q etx' attempt log)
    case Nil
    from handleInProgressEthTx_step[OF Nil(1)] show ?case
      by auto
  next
    case (Cons se ses)
    from Cons.prems(2)
    have "EncodedPayload (etx'\<lparr>BroadcastAt := Some t\<rparr>) = EncodedPayload (etx\<lparr>BroadcastAt := Some t\<rparr>)"
      and "GasLimit (etx'\<lparr>BroadcastAt := Some t\<rparr>) = GasLimit (etx\<lparr>BroadcastAt := Some t\<rparr>)"
      by (rule arg_cong)+
    then have same: "EncodedPayload etx' = EncodedPayload etx" "GasLimit etx' = GasLimit etx"
      by simp_all
    from handleInProgressEthTx_step[OF Cons.prems(1)] consider
        (ends) "log = [] \<or> log = [attempt]"
      | (retries) p l r0 r qr rest where
          "log = attempt # rest"
          "GetLegacyGas (estimator eb) (EncodedPayload etx') (GasLimit etx') True = Inr (p, l)
           \<or> BumpLegacyGas (estimator eb) (GasPrice attempt) (GasLimit etx') = Inr (p, l)"
          "NewLegacyAttempt eb (etx'\<lparr>BroadcastAt := Some t\<rparr>) p l = Inr r0"
          "saveReplacementInProgressAttempt q attempt r0 = Inr (qr, r)"
          "handleInProgressEthTx eb ses qr (etx'\<lparr>BroadcastAt := Some t\<rparr>) r t = Some (err, q', rest)"
      by blast
    then show ?case
    proof cases
      case ends
      then show ?thesis by auto
    next
      case retries
      from NewLegacyAttempt_Inr[OF retries(3)] saveReplacementInProgressAttempt_Inr[OF retries(4)]
      have "TxType r = 0 \<and> GasTipCap r = None \<and> GasFeeCap r = None
               \<and> GasPrice r = Some p \<and> ChainSpecificGasLimit r = l
               \<and> (\<exists>i. r = r0\<lparr>AttemptID := i\<rparr>)"
        by auto
      moreover from retries(3) have "NewLegacyAttempt eb (etx\<lparr>BroadcastAt := Some t\<rparr>) p l = Inr r0"
        by (simp only: Cons.prems(2))
      moreover from retries(2) have
        "GetLegacyGas (estimator eb) (EncodedPayload etx) (GasLimit etx) True = Inr (p, l)
         \<or> (\<exists>g. BumpLegacyGas (estimator eb) g (GasLimit etx) = Inr (p, l))"
        unfolding same by blast
      ultimately have r: "legacy r"
        unfolding legacy_def by blast
      have "etx'\<lparr>BroadcastAt := Some t\<rparr>\<lparr>BroadcastAt := Some t\<rparr> = etx\<lparr>BroadcastAt := Some t\<rparr>"
        using Cons.prems(2) by simp
      from Cons.IH[OF retries(5) this] have
        "rest = [] \<or> (\<exists>replacements. rest = r # replacements \<and> (\<forall>r\<in>set replacements. legacy r))" .
      with r have "\<forall>r\<in>set rest. legacy r"
        by auto
      with retries(1) show ?thesis
        by blast
    qed
  qed
  from this[of etx] assms show ?thesis
    unfolding legacy_def by simp
qed

theorem replacement_attempts_are_legacy_witness:
  "\<exists>q'. handleInProgressEthTx eb1 [Some fee_too_low, None] q1 etx1 attempt1_dynamic 50
           = Some (None, q', [attempt1_dynamic, replacement1 150])
      \<and> EvmEIP1559DynamicFees (config eb1) \<and> TxType attempt1_dynamic = 2
      \<and> TxType (replacement1 150) = 0 \<and> GasPrice (replacement1 150) = Some 150"
proof -
  have "\<exists>q'. handleInProgressEthTx eb1 [Some fee_too_low, None] q1 etx1 attempt1_dynamic 50
           = Some (None, q', [attempt1_dynamic, replacement1 150])"
    by (simp add: handleInProgressEthTx_sent is_sent_def tryAgainWithNewEstimation.simps
          tryAgainWithNewGas.simps NewLegacyAttempt_def saveReplacementInProgressAttempt_def
          sent_def saved_def saveAttempt_def IncrementNextNonce_def update_eth_txes_returning_def
          update_eth_tx_attempts_returning_def fee_too_low_def no_flags_def replacement1_def
          q1_def etx1_def etx2_def etx3_def attempt1_def attempt1_dynamic_def eb1_def Let_def)
  then obtain q' where run:
    "handleInProgressEthTx eb1 [Some fee_too_low, None] q1 etx1 attempt1_dynamic 50
       = Some (None, q', [attempt1_dynamic, replacement1 150])"
    by (rule exE)
  from replacement_attempts_are_legacy [OF run]
  have "TxType (replacement1 150) = 0 \<and> (\<exists>p. GasPrice (replacement1 150) = Some p)"
    by auto
  moreover have "GasPrice (replacement1 150) = Some 150"
    by (simp add: replacement1_def)
  moreover have "EvmEIP1559DynamicFees (config eb1)" "TxType attempt1_dynamic = 2"
    by (simp_all add: eb1_def attempt1_dynamic_def)
  ultimately show ?thesis
    using run by (intro exI [of _ q']) simp
qed

subsection \<open>Resuming a transaction in progress\<close>

lemma find_Some_holds:
  "find P xs = Some x \<Longrightarrow> x \<in> set xs \<and> P x"
  by (induction xs) (auto split: if_splits)

lemma getInProgressEthTx_SomeD:
  "getInProgressEthTx q fromAddress = Inr (Some (etx, atts)) \<Longrightarrow>
     etx \<in> set (eth_txes q) \<and> FromAddress etx = fromAddress \<and> State etx = EthTxInProgress
     \<and> (\<exists>a. atts = [a] \<and> loadEthTxAttempts q etx = [a] \<and> AttemptState a = EthTxAttemptInProgress)"
  apply (auto simp: getInProgressEthTx_def split: option.splits list.splits if_splits
              dest: find_Some_holds)
  apply (drule sym, simp)
  done

lemma updated_row_exists:
  assumes "\<exists>r\<in>set xs. ID r = i" "\<And>r. ID (f r) = ID r"
  shows "\<exists>r\<in>set (map (\<lambda>r. if ID r = i then f r else r) xs). ID r = i"
proof -
  from assms(1) obtain r0 where "r0 \<in> set xs" "ID r0 = i"
    by blast
  then have "f r0 \<in> set (map (\<lambda>r. if ID r = i then f r else r) xs)"
    by (force simp: image_iff)
  with assms(2) \<open>ID r0 = i\<close> show ?thesis
    by metis
qed

lemma saveFatallyErroredTransaction_rows:
  assumes "saveFatallyErroredTransaction eb q etx = (None, q', etx')"
  shows "(\<exists>r\<in>set (eth_txes q'). ID r = ID etx)
       \<and> (\<forall>r\<in>set (eth_txes q'). ID r = ID etx \<longrightarrow> State r = EthTxFatalError \<and> BroadcastAt r = None)"
proof -
  note s = saveFatallyErroredTransaction_success[OF assms]
  from s have q': "eth_txes q' = map (\<lambda>r. if ID r = ID etx
                                        then r\<lparr>State := EthTxFatalError, Error := Error etx,
                                               BroadcastAt := None, Nonce := None\<rparr>
                                        else r) (eth_txes q)"
    by simp
  from s have "\<exists>r\<in>set (eth_txes q). ID r = ID etx"
    by blast
  then have "\<exists>r\<in>set (eth_txes q'). ID r = ID etx"
    unfolding q' by (rule updated_row_exists) simp
  moreover have "\<forall>r\<in>set (eth_txes q'). ID r = ID etx \<longrightarrow> State r = EthTxFatalError \<and> BroadcastAt r = None"
    unfolding q' by auto
  ultimately show ?thesis ..
qed

lemma saveAttempt_rows:
  assumes "saveAttempt q etx attempt newState [] = (None, q', etx')"
  shows "(\<exists>r\<in>set (eth_txes q'). ID r = ID etx)
       \<and> (\<forall>r\<in>set (eth_txes q'). ID r = ID etx \<longrightarrow>
             State r = EthTxUnconfirmed \<and> BroadcastAt r = BroadcastAt etx)"
proof -
  note s = saveAttempt_success[OF assms]
  from s have q': "eth_txes q' = map (\<lambda>r. if ID r = ID etx
                                       then r\<lparr>State := EthTxUnconfirmed, Error := Error etx,
                                              BroadcastAt := BroadcastAt etx\<rparr>
                                       else r) (eth_txes q)"
    by auto
  from s have "\<exists>r\<in>set (eth_txes q). ID r = ID etx"
    by blast
  then have "\<exists>r\<in>set (eth_txes q'). ID r = ID etx"
    unfolding q' by (rule updated_row_exists) simp
  moreover have "\<forall>r\<in>set (eth_txes q'). ID r = ID etx \<longrightarrow>
      State r = EthTxUnconfirmed \<and> BroadcastAt r = BroadcastAt etx"
    unfolding q' by auto
  ultimately show ?thesis ..
qed

text \<open>
  When \<open>handleInProgressEthTx\<close> returns no error, the transaction has a row, and each of
  its rows is unconfirmed with the initial broadcast time written to
  \<^verbatim>\<open>broadcast_at\<close>, or fatally errored with \<^verbatim>\<open>broadcast_at\<close> null.
\<close>

lemma handleInProgressEthTx_broadcast_at:
  assumes "handleInProgressEthTx eb ses q etx attempt t = Some (None, q', log)"
  shows "(\<exists>r\<in>set (eth_txes q'). ID r = ID etx)
       \<and> (\<forall>r\<in>set (eth_txes q'). ID r = ID etx \<longrightarrow>
             State r = EthTxUnconfirmed \<and> BroadcastAt r = Some t
           \<or> State r = EthTxFatalError \<and> BroadcastAt r = None)"
  using assms
proof (induction ses arbitrary: q etx attempt log)
  case Nil
  from handleInProgressEthTx_step[OF Nil] consider
      (fatal) s etx' where
        "saveFatallyErroredTransaction eb q (etx\<lparr>Error := Some s\<rparr>) = (None, q', etx')"
    | (broadcast) etx' where
        "saveAttempt q (etx\<lparr>BroadcastAt := Some t\<rparr>) attempt EthTxAttemptBroadcast [] = (None, q', etx')"
    by auto
  then show ?case
  proof cases
    case fatal
    from saveFatallyErroredTransaction_rows[OF fatal] show ?thesis
      by simp
  next
    case broadcast
    from saveAttempt_rows[OF broadcast] show ?thesis
      by simp
  qed
next
  case (Cons se ses)
  from handleInProgressEthTx_step[OF Cons.prems] consider
      (fatal) s etx' where
        "saveFatallyErroredTransaction eb q (etx\<lparr>Error := Some s\<rparr>) = (None, q', etx')"
    | (broadcast) etx' where
        "saveAttempt q (etx\<lparr>BroadcastAt := Some t\<rparr>) attempt EthTxAttemptBroadcast [] = (None, q', etx')"
    | (retries) r qr rest where
        "handleInProgressEthTx eb ses qr (etx\<lparr>BroadcastAt := Some t\<rparr>) r t = Some (None, q', rest)"
    by auto
  then show ?case
  proof cases
    case fatal
    from saveFatallyErroredTransaction_rows[OF fatal] show ?thesis
      by simp
  next
    case broadcast
    from saveAttempt_rows[OF broadcast] show ?thesis
      by simp
  next
    case retries
    from Cons.IH[OF retries] show ?thesis
      by simp
  qed
qed

text \<open>
  C5 (as the code has it). When \<open>getInProgressEthTx\<close> finds a transaction in progress,
  \<open>handleAnyInProgressEthTx\<close> resumes it with the row's \<^verbatim>\<open>created_at\<close> as the initial
  broadcast time: if it returns no error, that is the outcome of
  \<open>handleInProgressEthTx\<close> for the transaction, its one attempt and \<open>CreatedAt\<close>, and
  every row of the transaction is then unconfirmed with \<^verbatim>\<open>broadcast_at\<close> equal to
  the row's \<^verbatim>\<open>created_at\<close> (the success path), or fatally errored with
  \<^verbatim>\<open>broadcast_at\<close> null. The \<^verbatim>\<open>broadcast_at\<close> that the row had is not read.
\<close>

theorem handleAnyInProgressEthTx_resumes_with_created_at:
  assumes "getInProgressEthTx q fromAddress = Inr (Some (etx, atts))"
    and "handleAnyInProgressEthTx eb ses q fromAddress = Some (None, q', log)"
  shows "(\<exists>a. atts = [a] \<and> handleInProgressEthTx eb ses q etx a (CreatedAt etx) = Some (None, q', log))
       \<and> (\<exists>r\<in>set (eth_txes q'). ID r = ID etx)
       \<and> (\<forall>r\<in>set (eth_txes q'). ID r = ID etx \<longrightarrow>
             State r = EthTxUnconfirmed \<and> BroadcastAt r = Some (CreatedAt etx)
           \<or> State r = EthTxFatalError \<and> BroadcastAt r = None)"
proof -
  from getInProgressEthTx_SomeD[OF assms(1)] obtain a where a: "atts = [a]"
    by blast
  with assms have h: "handleInProgressEthTx eb ses q etx a (CreatedAt etx) = Some (None, q', log)"
    by (auto simp: handleAnyInProgressEthTx_def split: option.splits prod.splits)
  from handleInProgressEthTx_broadcast_at[OF h] a h show ?thesis
    by blast
qed

theorem handleAnyInProgressEthTx_resumes_with_created_at_witness:
  "handleAnyInProgressEthTx eb1 [None] q1 5 = Some (None, q1_resumed, [attempt1])
   \<and> map State (eth_txes q1_resumed) = [EthTxUnconfirmed, EthTxUnstarted, EthTxUnstarted]
   \<and> map BroadcastAt (eth_txes q1_resumed) = [Some 10, None, None]
   \<and> CreatedAt etx1 = 10"
proof -
  have g: "getInProgressEthTx q1 5 = Inr (Some (etx1, [attempt1]))"
    by (simp add: getInProgressEthTx_def loadEthTxAttempts_def q1_def etx1_def etx2_def etx3_def
          attempt1_def)
  have h: "handleAnyInProgressEthTx eb1 [None] q1 5 = Some (None, q1_resumed, [attempt1])"
    by (simp add: handleAnyInProgressEthTx_def g)
       (simp add: handleInProgressEthTx_nonce_consumed is_sent_def
          saved_def saveAttempt_def IncrementNextNonce_def update_eth_txes_returning_def
          update_eth_tx_attempts_returning_def q1_resumed_def q1_def etx1_def etx2_def etx3_def
          attempt1_def Let_def)
  from handleAnyInProgressEthTx_resumes_with_created_at [OF g h] h show ?thesis
    by (simp add: q1_resumed_def etx1_def etx2_def etx3_def)
qed

text \<open>
  The claim as stated fails. A worker that picks transaction 3 (created at 12), saves
  it as in progress and stops there leaves the row with \<^verbatim>\<open>broadcast_at\<close> null;
  the next cycle resumes it and saves it as broadcast with \<^verbatim>\<open>broadcast_at\<close> 12,
  its \<^verbatim>\<open>created_at\<close>. And a row in progress whose \<^verbatim>\<open>broadcast_at\<close> is 5 and whose
  \<^verbatim>\<open>created_at\<close> is 10 is saved as broadcast with \<^verbatim>\<open>broadcast_at\<close> 10, not 5.
\<close>

theorem resume_preserves_broadcast_at_counterexample:
  "nextUnstartedTransactionWithNonce eb1 q0 5 = Inr (Some (etx3\<lparr>Nonce := Some 7\<rparr>))
   \<and> NewLegacyAttempt eb1 (etx3\<lparr>Nonce := Some 7\<rparr>) 150 21000 = Inr (attempt3\<lparr>AttemptID := 0\<rparr>)
   \<and> saveInProgressTransaction q0 (etx3\<lparr>Nonce := Some 7\<rparr>) (attempt3\<lparr>AttemptID := 0\<rparr>)
       = (None, q0_crashed, etx3\<lparr>Nonce := Some 7, State := EthTxInProgress\<rparr>, attempt3)
   \<and> map BroadcastAt (eth_txes q0_crashed) = [None, None]
   \<and> map CreatedAt (eth_txes q0_crashed) = [11, 12]
   \<and> handleAnyInProgressEthTx eb1 [None] q0_crashed 5 = Some (None, q0_resumed, [attempt3])
   \<and> map BroadcastAt (eth_txes q0_resumed) = [None, Some 12]
   \<and> map BroadcastAt (eth_txes q0_resumed) \<noteq> map BroadcastAt (eth_txes q0_crashed)
   \<and> handleAnyInProgressEthTx eb1 [None] q1_broadcast_before 5 = Some (None, q1_resumed, [attempt1])
   \<and> map BroadcastAt (eth_txes q1_broadcast_before) = [Some 5, None, None]
   \<and> map CreatedAt (eth_txes q1_broadcast_before) = [10, 11, 12]
   \<and> map BroadcastAt (eth_txes q1_resumed) = [Some 10, None, None]
   \<and> map BroadcastAt (eth_txes q1_resumed) \<noteq> map BroadcastAt (eth_txes q1_broadcast_before)"
proof -
  have pick: "nextUnstartedTransactionWithNonce eb1 q0 5 = Inr (Some (etx3\<lparr>Nonce := Some 7\<rparr>))"
    by (simp add: nextUnstartedTransactionWithNonce_def findNextUnstartedTransactionFromAddress_def
          GetNextNonce_def q0_def etx2_def etx3_def eb1_def less_eq_prod_def)
  have build: "NewLegacyAttempt eb1 (etx3\<lparr>Nonce := Some 7\<rparr>) 150 21000 = Inr (attempt3\<lparr>AttemptID := 0\<rparr>)"
    by (simp add: NewLegacyAttempt_def eb1_def etx3_def attempt3_def)
  have save: "saveInProgressTransaction q0 (etx3\<lparr>Nonce := Some 7\<rparr>) (attempt3\<lparr>AttemptID := 0\<rparr>)
       = (None, q0_crashed, etx3\<lparr>Nonce := Some 7, State := EthTxInProgress\<rparr>, attempt3)"
    by (simp add: saveInProgressTransaction_def update_eth_txes_returning_def q0_def q0_crashed_def
          etx2_def etx3_def attempt3_def Let_def)
  have g0: "getInProgressEthTx q0_crashed 5
              = Inr (Some (etx3\<lparr>Nonce := Some 7, State := EthTxInProgress\<rparr>, [attempt3]))"
    by (simp add: getInProgressEthTx_def loadEthTxAttempts_def q0_crashed_def etx2_def etx3_def
          attempt3_def)
  have h0: "handleAnyInProgressEthTx eb1 [None] q0_crashed 5 = Some (None, q0_resumed, [attempt3])"
    by (simp add: handleAnyInProgressEthTx_def g0)
       (simp add: handleInProgressEthTx_nonce_consumed is_sent_def
          saved_def saveAttempt_def IncrementNextNonce_def update_eth_txes_returning_def
          update_eth_tx_attempts_returning_def q0_resumed_def q0_crashed_def etx2_def etx3_def
          attempt3_def Let_def)
  have g: "getInProgressEthTx q1_broadcast_before 5 = Inr (Some (etx1\<lparr>BroadcastAt := Some 5\<rparr>, [attempt1]))"
    by (simp add: getInProgressEthTx_def loadEthTxAttempts_def q1_broadcast_before_def q1_def
          etx1_def etx2_def etx3_def attempt1_def)
  have h: "handleAnyInProgressEthTx eb1 [None] q1_broadcast_before 5
             = Some (None, q1_resumed, [attempt1])"
    by (simp add: handleAnyInProgressEthTx_def g)
       (simp add: handleInProgressEthTx_nonce_consumed is_sent_def
          saved_def saveAttempt_def IncrementNextNonce_def update_eth_txes_returning_def
          update_eth_tx_attempts_returning_def q1_resumed_def q1_broadcast_before_def q1_def
          etx1_def etx2_def etx3_def attempt1_def Let_def)
  from pick build save h0 h show ?thesis
    by (simp add: q0_crashed_def q0_resumed_def q1_resumed_def q1_broadcast_before_def q1_def
          etx1_def etx2_def etx3_def)
qed

subsection \<open>Pruning the queue of a subject\<close>

lemma drop_strictly_descending:
  fixes ys :: "int list"
  assumes "sorted_wrt (>) ys" "x \<in> set ys"
  shows "x \<in> set (drop n ys) \<longleftrightarrow> n \<le> card {y \<in> set ys. y > x}"
  using assms
proof (induction ys arbitrary: n)
  case Nil
  then show ?case by simp
next
  case (Cons a ys)
  from Cons.prems(1) have below: "\<forall>y\<in>set ys. y < a" and desc: "sorted_wrt (>) ys"
    by auto
  show ?case
  proof (cases n)
    case 0
    with Cons.prems(2) show ?thesis by simp
  next
    case (Suc m)
    show ?thesis
    proof (cases "x = a")
      case True
      with below have "x \<notin> set (drop m ys)"
        by (auto dest: in_set_dropD)
      moreover from True below have e: "{y \<in> set (a # ys). y > x} = {}"
        by auto
      have "card {y \<in> set (a # ys). y > x} = 0"
        by (simp only: e card.empty)
      moreover have "x \<in> set (drop n (a # ys)) \<longleftrightarrow> x \<in> set (drop m ys)"
        using Suc by simp
      ultimately show ?thesis
        using Suc by (simp only:) simp
    next
      case False
      with Cons.prems(2) have x: "x \<in> set ys"
        by simp
      with below have "x < a"
        by blast
      then have "{y \<in> set (a # ys). y > x} = insert a {y \<in> set ys. y > x}"
        by auto
      moreover from below have "a \<notin> {y \<in> set ys. y > x}"
        by auto
      ultimately have "card {y \<in> set (a # ys). y > x} = Suc (card {y \<in> set ys. y > x})"
        by simp
      with Cons.IH[OF desc x, of m] Suc show ?thesis
        by simp
    qed
  qed
qed

lemma rev_sort_strictly_descending:
  fixes xs :: "int list"
  assumes "distinct xs"
  shows "sorted_wrt (>) (rev (sort xs))"
proof -
  have "sorted_wrt (<) (sort xs)"
    using assms by (simp add: strict_sorted_iff)
  then show ?thesis
    by (simp add: sorted_wrt_rev)
qed

lemma map_insort_key: "map f (insort_key f x xs) = insort (f x) (map f xs)"
  by (induction xs) auto

lemma map_sort_key: "map f (sort_key f xs) = sort (map f xs)"
  by (induction xs) (auto simp: map_insort_key)

lemma newer_ids_count:
  fixes rows :: "EthTx list"
  assumes "distinct (map ID rows)"
  shows "card {y \<in> set (map ID (filter Q rows)). y > i} = length (filter (\<lambda>x. Q x \<and> i < ID x) rows)"
proof -
  have dist: "distinct (map ID (filter (\<lambda>x. Q x \<and> i < ID x) rows))"
    using assms by (rule distinct_map_filter)
  have "{y \<in> set (map ID (filter Q rows)). y > i} = set (map ID (filter (\<lambda>x. Q x \<and> i < ID x) rows))"
    by auto
  then have "card {y \<in> set (map ID (filter Q rows)). y > i}
               = card (set (map ID (filter (\<lambda>x. Q x \<and> i < ID x) rows)))"
    by (simp only:)
  also have "\<dots> = length (map ID (filter (\<lambda>x. Q x \<and> i < ID x) rows))"
    using dist by (rule distinct_card)
  also have "\<dots> = length (filter (\<lambda>x. Q x \<and> i < ID x) rows)"
    by simp
  finally show ?thesis .
qed

text \<open>
  With distinct ids, a row is beyond the \<open>n\<close> newest rows of the queue exactly when it
  is in the queue and at least \<open>n\<close> rows of the queue have a larger id.
\<close>

lemma beyond_newest:
  fixes rows :: "EthTx list"
  assumes d: "distinct (map ID rows)" and r: "r \<in> set rows"
  shows "ID r \<in> set (map ID (drop n (rev (sort_key ID (filter Q rows)))))
         \<longleftrightarrow> Q r \<and> n \<le> length (filter (\<lambda>x. Q x \<and> ID r < ID x) rows)"
proof -
  define ids where "ids = rev (sort (map ID (filter Q rows)))"
  have ids: "map ID (drop n (rev (sort_key ID (filter Q rows)))) = drop n ids"
    by (simp only: ids_def map_sort_key[symmetric] rev_map drop_map)
  have set_ids: "set ids = set (map ID (filter Q rows))"
    by (simp add: ids_def)
  from d have "distinct (map ID (filter Q rows))"
    by (rule distinct_map_filter)
  then have desc: "sorted_wrt (>) ids"
    unfolding ids_def by (rule rev_sort_strictly_descending)
  from d have inj: "inj_on ID (set rows)"
    by (simp add: distinct_map)
  have mem: "ID r \<in> set ids \<longleftrightarrow> Q r"
  proof
    assume "ID r \<in> set ids"
    then obtain x where "x \<in> set rows" "Q x" "ID x = ID r"
      unfolding set_ids by auto
    with inj r have "x = r"
      by (auto dest: inj_onD)
    with \<open>Q x\<close> show "Q r" by simp
  next
    assume "Q r"
    with r show "ID r \<in> set ids"
      unfolding set_ids by auto
  qed
  show ?thesis
  proof (cases "Q r")
    case False
    with mem have "ID r \<notin> set (drop n ids)"
      by (auto dest: in_set_dropD)
    with False show ?thesis
      by (simp add: ids)
  next
    case True
    with mem have "ID r \<in> set ids"
      by simp
    from drop_strictly_descending[OF desc this, of n]
    have "ID r \<in> set (drop n ids) \<longleftrightarrow> n \<le> card {y \<in> set (map ID (filter Q rows)). y > ID r}"
      by (simp only: set_ids)
    with True show ?thesis
      by (simp only: ids newer_ids_count[OF d]) simp
  qed
qed

lemma newest_remaining:
  fixes rows :: "EthTx list"
  assumes d: "distinct (map ID rows)"
  shows "length (filter Q (filter (\<lambda>r. ID r \<notin> set (map ID (drop n (rev (sort_key ID (filter Q rows)))))) rows))
         = min n (length (filter Q rows))"
proof -
  define ids where "ids = rev (sort (map ID (filter Q rows)))"
  have ids: "map ID (drop n (rev (sort_key ID (filter Q rows)))) = drop n ids"
    by (simp only: ids_def map_sort_key[symmetric] rev_map drop_map)
  from d have dq: "distinct (map ID (filter Q rows))"
    by (rule distinct_map_filter)
  then have di: "distinct ids"
    by (simp add: ids_def)
  have set_ids: "set ids = set (map ID (filter Q rows))"
    by (simp add: ids_def)
  define kept where "kept = filter (\<lambda>r. ID r \<notin> set (drop n ids)) (filter Q rows)"
  have "distinct (map ID kept)"
    unfolding kept_def using dq by (rule distinct_map_filter)
  then have "length kept = card (set (map ID kept))"
    using distinct_card[of "map ID kept"] by (simp only: length_map)
  also have "set (map ID kept) = set ids - set (drop n ids)"
    unfolding kept_def set_ids by auto
  also have "\<dots> = set (take n ids)"
  proof -
    have "set ids = set (take n ids) \<union> set (drop n ids)"
      by (metis append_take_drop_id set_append)
    moreover have "set (take n ids) \<inter> set (drop n ids) = {}"
      using di by (metis append_take_drop_id distinct_append)
    ultimately show ?thesis
      by auto
  qed
  also have "card (set (take n ids)) = length (take n ids)"
    using di distinct_card[of "take n ids"] by simp
  also have "\<dots> = min n (length (filter Q rows))"
    by (simp add: ids_def min.commute)
  finally have "length kept = min n (length (filter Q rows))" .
  moreover have "filter Q (filter (\<lambda>r. ID r \<notin> set (map ID (drop n (rev (sort_key ID (filter Q rows)))))) rows)
                   = kept"
    unfolding kept_def ids by (simp add: conj_commute)
  ultimately show ?thesis
    by simp
qed

text \<open>
  C7. \<open>PruneQueue\<close> of the drop-oldest strategy for subject \<open>S\<close> and queue size \<open>N\<close>, on a
  table whose ids are distinct. The table afterwards is the table before without
  exactly those rows that are unstarted, carry subject \<open>S\<close> and have at least \<open>N\<close>
  unstarted rows of subject \<open>S\<close> with a larger id; the from-address plays no part. The
  result is the number of rows deleted. Rows of other subjects and rows that are not
  unstarted all remain. Afterwards the number of unstarted rows of \<open>S\<close> is the smaller
  of \<open>N\<close> and their number before (so at most \<open>N\<close>), and by the first part they are the
  ones with the largest ids. The other two tables are unchanged.
\<close>

theorem PruneQueue_drops_all_but_newest:
  assumes "distinct (map ID (eth_txes q))" and "PruneQueue s q = (n, q')"
  shows "eth_txes q' =
           filter (\<lambda>r. \<not> (State r = EthTxUnstarted \<and> Subject r = Some (subject s)
                          \<and> queueSize s \<le> length (filter (\<lambda>x. (State x = EthTxUnstarted
                                                              \<and> Subject x = Some (subject s))
                                                              \<and> ID r < ID x) (eth_txes q))))
             (eth_txes q)
       \<and> n = int (length (eth_txes q)) - int (length (eth_txes q'))
       \<and> (\<forall>r\<in>set (eth_txes q). State r \<noteq> EthTxUnstarted \<or> Subject r \<noteq> Some (subject s) \<longrightarrow>
             r \<in> set (eth_txes q'))
       \<and> length (filter (\<lambda>r. State r = EthTxUnstarted \<and> Subject r = Some (subject s)) (eth_txes q'))
           = min (queueSize s)
               (length (filter (\<lambda>r. State r = EthTxUnstarted \<and> Subject r = Some (subject s)) (eth_txes q)))
       \<and> eth_tx_attempts q' = eth_tx_attempts q \<and> eth_key_states q' = eth_key_states q"
proof -
  define Q where "Q = (\<lambda>r :: EthTx. State r = EthTxUnstarted \<and> Subject r = Some (subject s))"
  define beyond where "beyond = map ID (drop (queueSize s) (rev (sort_key ID (filter Q (eth_txes q)))))"
  from assms(2) have q': "q' = q\<lparr>eth_txes := filter (\<lambda>r. ID r \<notin> set beyond) (eth_txes q)\<rparr>"
    and n: "n = int (length (eth_txes q)) - int (length (filter (\<lambda>r. ID r \<notin> set beyond) (eth_txes q)))"
    by (auto simp: PruneQueue_def Let_def Q_def beyond_def)
  have rows: "eth_txes q' = filter (\<lambda>r. ID r \<notin> set beyond) (eth_txes q)"
    by (simp add: q')
  have char: "ID r \<in> set beyond \<longleftrightarrow>
                Q r \<and> queueSize s \<le> length (filter (\<lambda>x. Q x \<and> ID r < ID x) (eth_txes q))"
    if "r \<in> set (eth_txes q)" for r
    unfolding beyond_def using assms(1) that by (rule beyond_newest)
  have 1: "eth_txes q' =
           filter (\<lambda>r. \<not> (Q r \<and> queueSize s \<le> length (filter (\<lambda>x. Q x \<and> ID r < ID x) (eth_txes q))))
             (eth_txes q)"
    unfolding rows by (rule filter_cong) (simp_all add: char)
  have 3: "\<forall>r\<in>set (eth_txes q). \<not> Q r \<longrightarrow> r \<in> set (eth_txes q')"
    unfolding 1 by simp
  have 4: "length (filter Q (eth_txes q')) = min (queueSize s) (length (filter Q (eth_txes q)))"
    unfolding rows beyond_def using assms(1) by (rule newest_remaining)
  from 1 n rows 3 4 q' show ?thesis
    unfolding Q_def by simp
qed

theorem PruneQueue_drops_all_but_newest_witness:
  "fst (PruneQueue (NewDropOldestStrategy 101 2 False) test_store) = 2
   \<and> map ID (eth_txes (snd (PruneQueue (NewDropOldestStrategy 101 2 False) test_store)))
       = [1, 2, 3, 4, 6, 8, 9]
   \<and> map ID (filter (\<lambda>r. State r = EthTxUnstarted)
               (eth_txes (snd (PruneQueue (NewDropOldestStrategy 101 2 False) test_store))))
       = [6, 8, 9]"
  using PruneQueue_drops_all_but_newest [of test_store "NewDropOldestStrategy 101 2 False"
          "fst (PruneQueue (NewDropOldestStrategy 101 2 False) test_store)"
          "snd (PruneQueue (NewDropOldestStrategy 101 2 False) test_store)"]
  by (simp add: PruneQueue_def NewDropOldestStrategy_def test_store_def test_etx_def Let_def)

end
